theory Spec2Isabelle
  imports Main
begin

section \<open>JavaScript numbers\<close>

text \<open>
  A JavaScript number is an IEEE 754 binary64 value. A finite value is kept as a pair
  of integers \<open>Fin m e\<close>, standing for \<open>m * 2 ^ e\<close>, with \<open>m\<close> odd (or \<open>Fin 0 0\<close> for zero), so
  that equal values are equal terms. Every arithmetic operation computes the exact
  result and rounds it to the nearest binary64 value, ties to even, as the hardware does.
  The sign of zero is not kept: no operation of the parser divides by zero or
  otherwise observes it.
\<close>

datatype jsnum = Fin int int | PInf | NInf | NaN

function bitlen :: "int \<Rightarrow> int" where
  "bitlen n = (if n \<le> 0 then 0 else 1 + bitlen (n div 2))"
  by pat_completeness auto
termination
  by (relation "measure nat") auto

declare bitlen.simps [simp del]

function canon :: "int \<Rightarrow> int \<Rightarrow> int \<times> int" where
  "canon m e = (if m = 0 then (0, 0) else if even m then canon (m div 2) (e + 1) else (m, e))"
  by pat_completeness auto
termination
  by (relation "measure (\<lambda>(m, e). nat \<bar>m\<bar>)") auto

declare canon.simps [simp del]

definition shl :: "int \<Rightarrow> int \<Rightarrow> int" where
  "shl m k = (if 0 < k then m * 2 ^ nat k else m)"

definition mk_fin :: "bool \<Rightarrow> int \<Rightarrow> int \<Rightarrow> jsnum" where
  "mk_fin neg m e = (case canon m e of (m', e') \<Rightarrow> Fin (if neg then - m' else m') e')"

definition inf_of :: "bool \<Rightarrow> jsnum" where
  "inf_of neg = (if neg then NInf else PInf)"

text \<open>The quotient \<open>num / den\<close> rounded to the nearest integer, ties to the even one.\<close>

definition half_even :: "int \<Rightarrow> int \<Rightarrow> int" where
  "half_even num den = (let f = num div den; r = num mod den
     in if 2 * r < den then f else if den < 2 * r then f + 1 else if even f then f else f + 1)"

text \<open>\<open>floor_log2 p q\<close> is the integer part of the binary logarithm of \<open>p / q\<close>, for positive \<open>p\<close>, \<open>q\<close>.\<close>

definition floor_log2 :: "int \<Rightarrow> int \<Rightarrow> int" where
  "floor_log2 p q = (let d = bitlen p - bitlen q
     in if shl q d \<le> shl p (- d) then d else d - 1)"

text \<open>
  \<open>round_frac neg p q s\<close> is the binary64 value nearest to \<open>(p / q) * 2 ^ s\<close> (negated when
  \<open>neg\<close>), for \<open>0 \<le> p\<close> and \<open>0 < q\<close>: 53 significant bits for a normal value, a multiple of
  \<open>2 ^ - 1074\<close> for a subnormal one, an infinity from \<open>2 ^ 1024 - 2 ^ 970\<close> on.
\<close>

definition round_frac :: "bool \<Rightarrow> int \<Rightarrow> int \<Rightarrow> int \<Rightarrow> jsnum" where
  "round_frac neg p q s = (if p = 0 then Fin 0 0 else
     let E = floor_log2 p q + s in
     if 1024 \<le> E then inf_of neg else
     let t = max E (- 1022) - 52;
         n = half_even (shl p (s - t)) (shl q (t - s))
     in if 1024 < bitlen n + t then inf_of neg else mk_fin neg n t)"

definition round_int :: "int \<Rightarrow> int \<Rightarrow> jsnum" where
  "round_int m e = round_frac (m < 0) \<bar>m\<bar> 1 e"

definition num_of_int :: "int \<Rightarrow> jsnum" where
  "num_of_int n = round_int n 0"

fun num_neg :: "jsnum \<Rightarrow> jsnum" where
  "num_neg (Fin m e) = Fin (- m) e"
| "num_neg PInf = NInf"
| "num_neg NInf = PInf"
| "num_neg NaN = NaN"

fun num_add :: "jsnum \<Rightarrow> jsnum \<Rightarrow> jsnum" where
  "num_add (Fin m1 e1) (Fin m2 e2) =
     (let e = min e1 e2 in round_int (shl m1 (e1 - e) + shl m2 (e2 - e)) e)"
| "num_add NaN y = NaN"
| "num_add x NaN = NaN"
| "num_add PInf NInf = NaN"
| "num_add NInf PInf = NaN"
| "num_add PInf y = PInf"
| "num_add NInf y = NInf"
| "num_add x PInf = PInf"
| "num_add x NInf = NInf"

definition num_sub :: "jsnum \<Rightarrow> jsnum \<Rightarrow> jsnum" where
  "num_sub x y = num_add x (num_neg y)"

fun is_neg :: "jsnum \<Rightarrow> bool" where
  "is_neg (Fin m e) = (m < 0)"
| "is_neg NInf = True"
| "is_neg x = False"

fun is_zero :: "jsnum \<Rightarrow> bool" where
  "is_zero (Fin m e) = (m = 0)"
| "is_zero x = False"

fun num_mul :: "jsnum \<Rightarrow> jsnum \<Rightarrow> jsnum" where
  "num_mul (Fin m1 e1) (Fin m2 e2) = round_int (m1 * m2) (e1 + e2)"
| "num_mul NaN y = NaN"
| "num_mul x NaN = NaN"
| "num_mul x y = (if is_zero x \<or> is_zero y then NaN else inf_of (is_neg x \<noteq> is_neg y))"

fun num_div :: "jsnum \<Rightarrow> jsnum \<Rightarrow> jsnum" where
  "num_div (Fin m1 e1) (Fin m2 e2) =
     (if m2 = 0 then (if m1 = 0 then NaN else inf_of (m1 < 0))
      else round_frac ((m1 < 0) \<noteq> (m2 < 0)) \<bar>m1\<bar> \<bar>m2\<bar> (e1 - e2))"
| "num_div NaN y = NaN"
| "num_div x NaN = NaN"
| "num_div (Fin m e) y = Fin 0 0"
| "num_div x (Fin m e) = inf_of (is_neg x \<noteq> (m < 0))"
| "num_div x y = NaN"

text \<open>The comparisons \<open><\<close>, \<open>\<le>\<close> of JavaScript: false as soon as an operand is \<open>NaN\<close>.\<close>

fun num_lt :: "jsnum \<Rightarrow> jsnum \<Rightarrow> bool" where
  "num_lt (Fin m1 e1) (Fin m2 e2) = (let e = min e1 e2 in shl m1 (e1 - e) < shl m2 (e2 - e))"
| "num_lt NaN y = False"
| "num_lt x NaN = False"
| "num_lt x NInf = False"
| "num_lt PInf y = False"
| "num_lt x y = True"

fun num_le :: "jsnum \<Rightarrow> jsnum \<Rightarrow> bool" where
  "num_le (Fin m1 e1) (Fin m2 e2) = (let e = min e1 e2 in shl m1 (e1 - e) \<le> shl m2 (e2 - e))"
| "num_le NaN y = False"
| "num_le x NaN = False"
| "num_le NInf y = True"
| "num_le x PInf = True"
| "num_le x y = False"

definition num_abs :: "jsnum \<Rightarrow> jsnum" where
  "num_abs x = (if is_neg x then num_neg x else x)"

text \<open>\<open>isNaN\<close>, and the truth value of a number: \<open>0\<close> and \<open>NaN\<close> are falsy.\<close>

definition isNaN :: "jsnum \<Rightarrow> bool" where
  "isNaN x = (x = NaN)"

fun truthy :: "jsnum \<Rightarrow> bool" where
  "truthy (Fin m e) = (m \<noteq> 0)"
| "truthy NaN = False"
| "truthy x = True"

text \<open>A field of the record that may be \<open>undefined\<close>: \<open>!field\<close> is \<open>\<not> truthy_opt\<close>.\<close>

definition truthy_opt :: "jsnum option \<Rightarrow> bool" where
  "truthy_opt v = (case v of None \<Rightarrow> False | Some x \<Rightarrow> truthy x)"

text \<open>A decimal literal of the source or of the specification, as \<open>p / 10 ^ k\<close>.\<close>

definition dec :: "int \<Rightarrow> nat \<Rightarrow> jsnum" where
  "dec p k = round_frac (p < 0) \<bar>p\<bar> (10 ^ k) 0"

text \<open>
  \<open>round2 x\<close> is \<open>parseFloat(x.toFixed(2))\<close>. \<open>toFixed(2)\<close> takes the integer \<open>n\<close> for which
  \<open>n / 100\<close> is nearest to the exact value of \<open>\<bar>x\<bar>\<close>, the larger one on a tie, and prints it with
  the sign of \<open>x\<close>; from \<open>10 ^ 21\<close> on it prints \<open>x\<close> itself, and so for \<open>NaN\<close> and the infinities;
  \<open>parseFloat\<close> reads the digits back.
\<close>

definition fixed2_digits :: "int \<Rightarrow> int \<Rightarrow> int" where
  "fixed2_digits m e = (if 0 \<le> e then shl (\<bar>m\<bar> * 100) e
     else (\<bar>m\<bar> * 200 + 2 ^ nat (- e)) div 2 ^ nat (1 - e))"

fun round2 :: "jsnum \<Rightarrow> jsnum" where
  "round2 (Fin m e) = (if num_le (Fin (10 ^ 21) 0) (num_abs (Fin m e)) then Fin m e
     else round_frac (m < 0) (fixed2_digits m e) 100 0)"
| "round2 x = x"

section \<open>Strings and regular expressions\<close>

text \<open>
  A JavaScript string is a sequence of UTF-16 code units, here integers. The regular
  expressions of the source are values of \<open>regex\<close>, and \<open>rmatch\<close> is the backtracking matcher
  of the ECMAScript specification: a matcher takes a continuation and a state and gives
  the final state of the first successful path, alternatives left to right, greedy
  quantifiers longest first. The position tests of \<open>rep\<close> make its recursion well founded;
  they are passed on every path from a valid state (\<open>rep_spec\<close> below), where \<open>rep\<close> is
  RepeatMatcher with its test for an empty iteration.
\<close>

type_synonym cu = int

datatype mstate =
  MState (rest: "cu list") (prev: "cu option") (pos: int) (caps: "(nat \<times> cu list) list")

type_synonym cont = "mstate \<Rightarrow> mstate option"

type_synonym matcher = "cont \<Rightarrow> mstate \<Rightarrow> mstate option"

datatype regex =
    Chr "cu \<Rightarrow> bool"
  | Lit bool "cu list"
  | Seq regex regex
  | Alt regex regex
  | Rep nat "nat option" bool regex
  | Grp nat regex
  | Look regex
  | NLook regex
  | Bos
  | Eos
  | WordB

text \<open>
  Case folding of the \<open>i\<close> flag (Canonicalize), on the Latin-1 letters; the patterns of
  the source only hold letters of that range, and no code unit from 256 on folds into it.
\<close>

definition canonicalize :: "cu \<Rightarrow> cu" where
  "canonicalize c = (if 97 \<le> c \<and> c \<le> 122 then c - 32
     else if 224 \<le> c \<and> c \<le> 254 \<and> c \<noteq> 247 then c - 32 else c)"

definition chr_eq :: "bool \<Rightarrow> cu \<Rightarrow> cu \<Rightarrow> bool" where
  "chr_eq ic p c = (if ic then canonicalize c = canonicalize p else c = p)"

fun lit_match :: "bool \<Rightarrow> cu list \<Rightarrow> cont \<Rightarrow> mstate \<Rightarrow> mstate option" where
  "lit_match ic [] k x = k x"
| "lit_match ic (p # ps) k x = (case rest x of
       [] \<Rightarrow> None
     | c # cs \<Rightarrow>
         if chr_eq ic p c then lit_match ic ps k (MState cs (Some c) (pos x + 1) (caps x))
         else None)"

definition is_digit :: "cu \<Rightarrow> bool" where
  "is_digit c = (48 \<le> c \<and> c \<le> 57)"

definition is_alpha :: "cu \<Rightarrow> bool" where
  "is_alpha c = ((65 \<le> c \<and> c \<le> 90) \<or> (97 \<le> c \<and> c \<le> 122))"

definition is_word :: "cu \<Rightarrow> bool" where
  "is_word c = (is_digit c \<or> is_alpha c \<or> c = 95)"

text \<open>The class \<open>\s\<close>: white space and line terminators.\<close>

definition is_space :: "cu \<Rightarrow> bool" where
  "is_space c = (c = 32 \<or> (9 \<le> c \<and> c \<le> 13) \<or> c = 160 \<or> c = 5760
     \<or> (8192 \<le> c \<and> c \<le> 8202) \<or> c = 8232 \<or> c = 8233 \<or> c = 8239 \<or> c = 8287
     \<or> c = 12288 \<or> c = 65279)"

text \<open>The class \<open>.\<close>: everything but a line terminator.\<close>

definition is_dot :: "cu \<Rightarrow> bool" where
  "is_dot c = (c \<noteq> 10 \<and> c \<noteq> 13 \<and> c \<noteq> 8232 \<and> c \<noteq> 8233)"

definition dec_max :: "nat option \<Rightarrow> nat option" where
  "dec_max mx = (case mx of None \<Rightarrow> None | Some j \<Rightarrow> Some (j - 1))"

function rep :: "int \<Rightarrow> matcher \<Rightarrow> nat \<Rightarrow> nat option \<Rightarrow> bool \<Rightarrow> cont \<Rightarrow> mstate \<Rightarrow> mstate option" where
  "rep len f mn mx g k x =
     (if mx = Some 0 then k x
      else if mn \<noteq> 0 then
        f (\<lambda>y. if pos x \<le> pos y then rep len f (mn - 1) (dec_max mx) g k y else None) x
      else if g then
        (case f (\<lambda>y. if pos x < pos y \<and> pos y \<le> len
                      then rep len f 0 (dec_max mx) g k y else None) x of
           Some z \<Rightarrow> Some z
         | None \<Rightarrow> k x)
      else
        (case k x of
           Some z \<Rightarrow> Some z
         | None \<Rightarrow> f (\<lambda>y. if pos x < pos y \<and> pos y \<le> len
                            then rep len f 0 (dec_max mx) g k y else None) x))"
  by pat_completeness auto
termination
  by (relation "inv_image (less_than <*lex*> less_than)
        (\<lambda>(len, f, mn, mx, g, k, x). (nat (len - pos x), mn))") auto

declare rep.simps [simp del]

primrec rmatch :: "int \<Rightarrow> regex \<Rightarrow> cont \<Rightarrow> mstate \<Rightarrow> mstate option" where
  "rmatch len (Chr P) k x = (case rest x of
       [] \<Rightarrow> None
     | c # cs \<Rightarrow> if P c then k (MState cs (Some c) (pos x + 1) (caps x)) else None)"
| "rmatch len (Lit ic w) k x = lit_match ic w k x"
| "rmatch len (Seq a b) k x = rmatch len a (rmatch len b k) x"
| "rmatch len (Alt a b) k x = (case rmatch len a k x of Some z \<Rightarrow> Some z | None \<Rightarrow> rmatch len b k x)"
| "rmatch len (Rep mn mx g a) k x = rep len (rmatch len a) mn mx g k x"
| "rmatch len (Grp i a) k x =
     rmatch len a (\<lambda>y. k (MState (rest y) (prev y) (pos y)
                        ((i, take (nat (pos y - pos x)) (rest x)) # caps y))) x"
| "rmatch len (Look a) k x = (case rmatch len a Some x of
       None \<Rightarrow> None
     | Some y \<Rightarrow> k (MState (rest x) (prev x) (pos x) (caps y)))"
| "rmatch len (NLook a) k x = (case rmatch len a Some x of None \<Rightarrow> k x | Some y \<Rightarrow> None)"
| "rmatch len Bos k x = (if pos x = 0 then k x else None)"
| "rmatch len Eos k x = (if rest x = [] then k x else None)"
| "rmatch len WordB k x =
     (if (case prev x of None \<Rightarrow> False | Some c \<Rightarrow> is_word c)
         \<noteq> (case rest x of [] \<Rightarrow> False | c # cs \<Rightarrow> is_word c)
      then k x else None)"

text \<open>
  The result of \<open>exec\<close>: the index of the match and of its end, the matched text, the
  captures (the latest entry of a group first), and the text after the match with the code
  unit before it.
\<close>

datatype mres =
  MRes (m_index: int) (m_end: int) (m_text: "cu list") (m_caps: "(nat \<times> cu list) list")
    (m_rest: "cu list") (m_prev: "cu option")

fun search :: "int \<Rightarrow> regex \<Rightarrow> cu option \<Rightarrow> int \<Rightarrow> cu list \<Rightarrow> mres option" where
  "search len r pv p [] = (case rmatch len r Some (MState [] pv p []) of
       None \<Rightarrow> None
     | Some y \<Rightarrow> Some (MRes p (pos y) [] (caps y) (rest y) (prev y)))"
| "search len r pv p (c # cs) = (case rmatch len r Some (MState (c # cs) pv p []) of
       None \<Rightarrow> search len r (Some c) (p + 1) cs
     | Some y \<Rightarrow>
         Some (MRes p (pos y) (take (nat (pos y - p)) (c # cs)) (caps y) (rest y) (prev y)))"

text \<open>\<open>s.match(r)\<close> for a pattern without the \<open>g\<close> flag, \<open>r.test(s)\<close>, and group \<open>i\<close> of a match.\<close>

definition str_match :: "regex \<Rightarrow> cu list \<Rightarrow> mres option" where
  "str_match r s = search (int (length s)) r None 0 s"

definition test :: "regex \<Rightarrow> cu list \<Rightarrow> bool" where
  "test r s = (str_match r s \<noteq> None)"

definition grp :: "mres \<Rightarrow> nat \<Rightarrow> cu list option" where
  "grp r i = map_of (m_caps r) i"

text \<open>A captured group is truthy when it took part in the match and is not empty.\<close>

definition grp_truthy :: "mres \<Rightarrow> nat \<Rightarrow> cu list option" where
  "grp_truthy r i = (case grp r i of None \<Rightarrow> None | Some w \<Rightarrow> if w = [] then None else Some w)"

text \<open>
  \<open>s.replace(r, w)\<close> for a pattern with the \<open>g\<close> flag and a replacement without \<open>$\<close>: every
  match, left to right, the search going on after the match (one code unit further after
  an empty match).
\<close>

function replace_from :: "int \<Rightarrow> regex \<Rightarrow> cu list \<Rightarrow> cu option \<Rightarrow> int \<Rightarrow> cu list \<Rightarrow> cu list" where
  "replace_from len r w pv p s = (case search len r pv p s of
       None \<Rightarrow> s
     | Some res \<Rightarrow>
         if m_index res < m_end res then
           (if p < m_end res \<and> m_end res \<le> len
            then take (nat (m_index res - p)) s @ w
                   @ replace_from len r w (m_prev res) (m_end res) (m_rest res)
            else s)
         else (case m_rest res of
                 [] \<Rightarrow> take (nat (m_index res - p)) s @ w
               | c # cs \<Rightarrow>
                   if p \<le> m_end res \<and> m_end res < len
                   then take (nat (m_index res - p)) s @ w
                          @ c # replace_from len r w (Some c) (m_end res + 1) cs
                   else s))"
  by pat_completeness auto
termination
  by (relation "measure (\<lambda>(len, r, w, pv, p, s). nat (len - p))") auto

declare replace_from.simps [simp del]

definition replace_all :: "regex \<Rightarrow> cu list \<Rightarrow> cu list \<Rightarrow> cu list" where
  "replace_all r w s = replace_from (int (length s)) r w None 0 s"

text \<open>\<open>s.trim()\<close>.\<close>

definition trim :: "cu list \<Rightarrow> cu list" where
  "trim s = rev (dropWhile is_space (rev (dropWhile is_space s)))"

text \<open>Text of the source and of the specification, as code units.\<close>

definition str :: "string \<Rightarrow> cu list" where
  "str s = map of_char s"

subsection \<open>Notation of the patterns\<close>

definition rstar :: "regex \<Rightarrow> regex" where
  "rstar r = Rep 0 None True r"

definition rlazy :: "regex \<Rightarrow> regex" where
  "rlazy r = Rep 0 None False r"

definition rplus :: "regex \<Rightarrow> regex" where
  "rplus r = Rep 1 None True r"

definition ropt :: "regex \<Rightarrow> regex" where
  "ropt r = Rep 0 (Some 1) True r"

definition rtimes :: "nat \<Rightarrow> nat \<Rightarrow> regex \<Rightarrow> regex" where
  "rtimes i j r = Rep i (Some j) True r"

definition rleast :: "nat \<Rightarrow> regex \<Rightarrow> regex" where
  "rleast i r = Rep i None True r"

fun seqs :: "regex list \<Rightarrow> regex" where
  "seqs [] = Lit False []"
| "seqs [r] = r"
| "seqs (r # rs) = Seq r (seqs rs)"

fun alts :: "regex list \<Rightarrow> regex" where
  "alts [] = NLook (Lit False [])"
| "alts [r] = r"
| "alts (r # rs) = Alt r (alts rs)"

text \<open>A literal of a pattern, with and without the \<open>i\<close> flag, and one code unit.\<close>

definition liti :: "string \<Rightarrow> regex" where
  "liti w = Lit True (str w)"

definition lit :: "string \<Rightarrow> regex" where
  "lit w = Lit False (str w)"

definition digit :: regex where
  "digit = Chr is_digit"

definition space :: regex where
  "space = Chr is_space"

text \<open>\<open>[\d,\.]\<close>, \<open>[\d,]\<close>, \<open>[:\s]\<close>, \<open>[^\d]\<close> and \<open>[\s\S]\<close>.\<close>

definition money_chr :: "cu \<Rightarrow> bool" where
  "money_chr c = (is_digit c \<or> c = 44 \<or> c = 46)"

definition digit_comma :: "cu \<Rightarrow> bool" where
  "digit_comma c = (is_digit c \<or> c = 44)"

definition colon_space :: "cu \<Rightarrow> bool" where
  "colon_space c = (c = 58 \<or> is_space c)"

definition non_digit :: "cu \<Rightarrow> bool" where
  "non_digit c = (\<not> is_digit c)"

definition any_cu :: "cu \<Rightarrow> bool" where
  "any_cu c = True"

section \<open>parseFloat\<close>

text \<open>
  \<open>parseFloat\<close> skips leading white space and reads the longest prefix that is a decimal
  literal: a sign, then \<open>Infinity\<close> or digits with an optional fraction and an optional
  exponent. Without such a prefix the result is \<open>NaN\<close>. The value is the binary64 value
  nearest to the decimal number read.
\<close>

definition digits_val :: "cu list \<Rightarrow> int" where
  "digits_val ds = foldl (\<lambda>a d. 10 * a + (d - 48)) 0 ds"

definition decimal_val :: "bool \<Rightarrow> cu list \<Rightarrow> cu list \<Rightarrow> int \<Rightarrow> jsnum" where
  "decimal_val neg ip fp ex =
     (let x = ex - int (length fp)
      in if 0 \<le> x then round_frac neg (digits_val (ip @ fp) * 10 ^ nat x) 1 0
         else round_frac neg (digits_val (ip @ fp)) (10 ^ nat (- x)) 0)"

text \<open>The exponent part at the head of the text, \<open>0\<close> when there is none.\<close>

definition exponent_val :: "cu list \<Rightarrow> int" where
  "exponent_val s = (case s of
       [] \<Rightarrow> 0
     | c # t \<Rightarrow>
         if c \<noteq> 101 \<and> c \<noteq> 69 then 0
         else (case t of
                 [] \<Rightarrow> 0
               | d # u \<Rightarrow>
                   if d = 45 then - digits_val (takeWhile is_digit u)
                   else if d = 43 then digits_val (takeWhile is_digit u)
                   else digits_val (takeWhile is_digit t)))"

definition unsigned_val :: "bool \<Rightarrow> cu list \<Rightarrow> jsnum" where
  "unsigned_val neg s =
     (if take 8 s = str ''Infinity'' then inf_of neg
      else let ip = takeWhile is_digit s; t = dropWhile is_digit s
           in (case t of
                 [] \<Rightarrow> if ip = [] then NaN else decimal_val neg ip [] 0
               | c # u \<Rightarrow>
                   if c = 46 then
                     (let fp = takeWhile is_digit u
                      in if ip = [] \<and> fp = [] then NaN
                         else decimal_val neg ip fp (exponent_val (dropWhile is_digit u)))
                   else if ip = [] then NaN
                   else decimal_val neg ip [] (exponent_val t)))"

definition parseFloat :: "cu list \<Rightarrow> jsnum" where
  "parseFloat s = (case dropWhile is_space s of
       [] \<Rightarrow> NaN
     | c # t \<Rightarrow>
         if c = 45 then unsigned_val True t
         else if c = 43 then unsigned_val False t
         else unsigned_val False (c # t))"

section \<open>The parser: parseCurrency\<close>

text \<open>\<open>/\d+\.\d{3},\d{2}$/\<close>, \<open>/\d{1,3}(?:\.\d{3})+,\d{2}$/\<close> and \<open>/\d+,\d{1,2}$/\<close>.\<close>

definition dot_thousands_1 :: regex where
  "dot_thousands_1 = seqs [rplus digit, lit ''.'', rtimes 3 3 digit, lit '','', rtimes 2 2 digit, Eos]"

definition dot_thousands_2 :: regex where
  "dot_thousands_2 = seqs [rtimes 1 3 digit, rplus (Seq (lit ''.'') (rtimes 3 3 digit)),
     lit '','', rtimes 2 2 digit, Eos]"

definition comma_decimal :: regex where
  "comma_decimal = seqs [rplus digit, lit '','', rtimes 1 2 digit, Eos]"

text \<open>\<open>/[^0-9,\.\-]/g\<close>, \<open>/\./g\<close> and \<open>/,/g\<close>.\<close>

definition not_currency_chr :: "cu \<Rightarrow> bool" where
  "not_currency_chr c = (\<not> (is_digit c \<or> c = 44 \<or> c = 46 \<or> c = 45))"

definition dots :: regex where
  "dots = lit ''.''"

definition commas :: regex where
  "commas = lit '',''"

definition parseCurrency :: "cu list \<Rightarrow> jsnum" where
  "parseCurrency st =
     (if st = [] then NaN
      else let s = replace_all (Chr not_currency_chr) [] (trim st);
               hasDot = (46 \<in> set s);
               hasComma = (44 \<in> set s);
               s' = (if hasDot \<and> hasComma then
                       (if test dot_thousands_1 s \<or> test dot_thousands_2 s
                        then replace_all commas (str ''.'') (replace_all dots [] s)
                        else replace_all commas [] s)
                     else if hasComma \<and> \<not> hasDot then
                       (if test comma_decimal s then replace_all commas (str ''.'') s
                        else replace_all commas [] s)
                     else replace_all commas [] s)
      in parseFloat s')"

section \<open>The parser: the record and the text\<close>

record ReceiptData =
  rawText :: "cu list"
  amount :: "jsnum option"
  subtotalAmount :: "jsnum option"
  taxAmount :: "jsnum option"
  taxPercentage :: "jsnum option"
  invoiceNumber :: "cu list option"
  date :: "cu list option"
  vendorName :: "cu list option"

text \<open>The patterns of \<open>normalize_text\<close>, in the order of the source.\<close>

definition ocr_letter :: "string \<Rightarrow> regex" where
  "ocr_letter w = seqs [WordB, lit w, Look digit]"

definition nbsp_tab :: "cu \<Rightarrow> bool" where
  "nbsp_tab c = (c = 160 \<or> c = 9)"

definition dashes :: regex where
  "dashes = Alt (Lit False [8211]) (Lit False [8212])"

definition newline :: regex where
  "newline = Lit False [10]"

definition normalize_text :: "cu list \<Rightarrow> cu list" where
  "normalize_text txt =
     trim
      (replace_all (rleast 2 newline) [10]
        (replace_all (Seq (rplus space) newline) [10]
          (replace_all dashes (str ''-'')
            (replace_all (rplus (Chr nbsp_tab)) (str '' '')
              (replace_all (ocr_letter ''S'') (str ''5'')
                (replace_all (ocr_letter ''I'') (str ''1'')
                  (replace_all (ocr_letter ''O'') (str ''0'')
                    (replace_all (Lit False [13]) [10] txt))))))))"

subsection \<open>Money candidates\<close>

text \<open>
  \<open>/(?:\$|USD|EUR|E|GBP|L)?\s*([0-9]{1,3}(?:[.,\s][0-9]{3})*(?:[.,][0-9]{1,2})?)/gi\<close>, where
  \<open>E\<close> is the euro sign (code unit 8364) and \<open>L\<close> the pound sign (163).
\<close>

definition dot_comma :: "cu \<Rightarrow> bool" where
  "dot_comma c = (c = 46 \<or> c = 44)"

definition dot_comma_space :: "cu \<Rightarrow> bool" where
  "dot_comma_space c = (c = 46 \<or> c = 44 \<or> is_space c)"

definition moneyPattern :: regex where
  "moneyPattern = seqs
     [ropt (alts [lit ''$'', liti ''USD'', liti ''EUR'', Lit True [8364], liti ''GBP'', Lit True [163]]),
      rstar space,
      Grp 1 (seqs [rtimes 1 3 digit,
                   rstar (Seq (Chr dot_comma_space) (rtimes 3 3 digit)),
                   ropt (Seq (Chr dot_comma) (rtimes 1 2 digit))])]"

text \<open>
  The loop \<open>while ((match = moneyPattern.exec(rawText)) !== null)\<close>: each search starts
  where the last match ended. A match of \<open>moneyPattern\<close> holds a digit, so its end lies
  beyond its start (\<open>exec_all_spec\<close> below) and the loop ends; the position tests make the
  recursion well founded.
\<close>

function exec_all :: "int \<Rightarrow> regex \<Rightarrow> cu option \<Rightarrow> int \<Rightarrow> cu list \<Rightarrow> mres list" where
  "exec_all len r pv p s = (case search len r pv p s of
       None \<Rightarrow> []
     | Some res \<Rightarrow>
         if p < m_end res \<and> m_end res \<le> len \<and> m_index res < m_end res
         then res # exec_all len r (m_prev res) (m_end res) (m_rest res)
         else [])"
  by pat_completeness auto
termination
  by (relation "measure (\<lambda>(len, r, pv, p, s). nat (len - p))") auto

declare exec_all.simps [simp del]

definition money_value :: "mres \<Rightarrow> jsnum list" where
  "money_value res = (case grp_truthy res 1 of
       None \<Rightarrow> []
     | Some w \<Rightarrow> (let v = parseFloat (replace_all commas [] w) in if isNaN v then [] else [v]))"

definition moneyMatches :: "cu list \<Rightarrow> jsnum list" where
  "moneyMatches raw = concat (map money_value (exec_all (int (length raw)) moneyPattern None 0 raw))"

text \<open>\<open>sort((a, b) => b - a)\<close>: descending.\<close>

fun insert_desc :: "jsnum \<Rightarrow> jsnum list \<Rightarrow> jsnum list" where
  "insert_desc x [] = [x]"
| "insert_desc x (y # ys) = (if num_lt x y then y # insert_desc x ys else x # y # ys)"

definition sort_desc :: "jsnum list \<Rightarrow> jsnum list" where
  "sort_desc xs = foldr insert_desc xs []"

definition sortedAmounts :: "cu list \<Rightarrow> jsnum list" where
  "sortedAmounts raw = sort_desc (moneyMatches raw)"

definition maxAmount :: "jsnum list \<Rightarrow> jsnum option" where
  "maxAmount sa = (case sa of [] \<Rightarrow> None | x # xs \<Rightarrow> Some x)"

subsection \<open>The totals section\<close>

text \<open>\<open>/(desglose\s+itbms|valor\s+total|totals?|amounts?\s+breakdown)([\s\S]*)/i\<close>\<close>

definition desglose_re :: regex where
  "desglose_re = seqs
     [Grp 1 (alts [seqs [liti ''desglose'', rplus space, liti ''itbms''],
                   seqs [liti ''valor'', rplus space, liti ''total''],
                   seqs [liti ''total'', ropt (liti ''s'')],
                   seqs [liti ''amount'', ropt (liti ''s''), rplus space, liti ''breakdown'']]),
      Grp 2 (rstar (Chr any_cu))]"

text \<open>
  \<open>/(valor\s+total|total\s+pagado|desglose|totals?|amount\s+paid)([\s\S]*?)(?:forma\s+de\s+pago|payment\s+method|p[aA]gina|page|$)/i\<close>,
  where \<open>A\<close> is the letter a with an acute accent (code unit 225; 193 in upper case).
\<close>

definition a_acute :: "cu \<Rightarrow> bool" where
  "a_acute c = (canonicalize c = 65 \<or> canonicalize c = 193)"

definition totals_section_re :: regex where
  "totals_section_re = seqs
     [Grp 1 (alts [seqs [liti ''valor'', rplus space, liti ''total''],
                   seqs [liti ''total'', rplus space, liti ''pagado''],
                   liti ''desglose'',
                   seqs [liti ''total'', ropt (liti ''s'')],
                   seqs [liti ''amount'', rplus space, liti ''paid'']]),
      Grp 2 (rlazy (Chr any_cu)),
      alts [seqs [liti ''forma'', rplus space, liti ''de'', rplus space, liti ''pago''],
            seqs [liti ''payment'', rplus space, liti ''method''],
            seqs [liti ''p'', Chr a_acute, liti ''gina''],
            liti ''page'',
            Eos]]"

definition group_or_empty :: "mres \<Rightarrow> nat \<Rightarrow> cu list" where
  "group_or_empty res i = (case grp res i of None \<Rightarrow> [] | Some w \<Rightarrow> w)"

definition totalsSection :: "cu list \<Rightarrow> cu list" where
  "totalsSection txt = (case str_match desglose_re txt of
       None \<Rightarrow> txt
     | Some res \<Rightarrow> group_or_empty res 2)"

definition extractionText :: "cu list \<Rightarrow> cu list" where
  "extractionText txt = (case str_match totals_section_re txt of
       None \<Rightarrow> totalsSection txt
     | Some res \<Rightarrow> group_or_empty res 2)"

section \<open>The parser: field extraction\<close>

text \<open>
  Each field has a list of patterns, tried in order; the loop of the source leaves at the
  first pattern whose match passes the test of the field. \<open>money_tail\<close> is the common
  ending \<open>[:\s]*\$?\s*\<close> of the labelled patterns.
\<close>

definition money_tail :: "regex list" where
  "money_tail = [rstar (Chr colon_space), ropt (lit ''$''), rstar space]"

definition money_grp :: regex where
  "money_grp = Grp 1 (rplus (Chr money_chr))"

definition without_commas :: "cu list \<Rightarrow> jsnum" where
  "without_commas w = parseFloat (replace_all commas [] w)"

subsection \<open>Subtotal\<close>

definition subtotalPatterns :: "regex list" where
  "subtotalPatterns =
    [seqs [liti ''monto'', rplus space, liti ''gravado'', rplus space,
           Alt (liti ''itbms'') (liti ''tbws''), rstar (Chr non_digit), ropt money_grp],
     seqs [liti ''monto'', rstar space, liti ''base'', rstar (Chr non_digit), ropt money_grp],
     seqs ([liti ''sub'', ropt (Chr (\<lambda>c. is_space c \<or> c = 45)), liti ''total'']
           @ money_tail @ [ropt money_grp]),
     seqs ([liti ''subtotal''] @ money_tail @ [ropt money_grp]),
     seqs ([liti ''importe'', rstar space, liti ''base''] @ money_tail @ [ropt money_grp]),
     seqs ([liti ''base'', rstar space, liti ''imponible''] @ money_tail @ [ropt money_grp]),
     seqs ([liti ''amount'', rstar space, liti ''before'', rstar space, liti ''tax'']
           @ money_tail @ [ropt money_grp]),
     seqs ([liti ''amount'', rstar space, liti ''net''] @ money_tail @ [ropt money_grp])]"

fun find_subtotal :: "regex list \<Rightarrow> cu list \<Rightarrow> jsnum option" where
  "find_subtotal [] t = None"
| "find_subtotal (p # ps) t = (case str_match p t of
       None \<Rightarrow> find_subtotal ps t
     | Some res \<Rightarrow> (case grp_truthy res 1 of
         None \<Rightarrow> find_subtotal ps t
       | Some w \<Rightarrow> if num_lt (Fin 0 0) (without_commas w) then Some (without_commas w)
                   else find_subtotal ps t))"

definition extract_subtotal :: "cu list \<Rightarrow> ReceiptData \<Rightarrow> ReceiptData" where
  "extract_subtotal t d = (case find_subtotal subtotalPatterns t of
       None \<Rightarrow> d
     | Some v \<Rightarrow> d\<lparr>subtotalAmount := Some v\<rparr>)"

subsection \<open>Tax percentage\<close>

definition percent_grp :: regex where
  "percent_grp = Grp 1 (Seq (rtimes 1 2 digit) (ropt (Seq (lit ''.'') (rplus digit))))"

definition tax_words :: regex where
  "tax_words = alts [liti ''tax'', liti ''impuesto'', liti ''iva'', liti ''itbms'', liti ''vat'',
     liti ''gst'']"

definition taxPercentPatterns :: "regex list" where
  "taxPercentPatterns =
    [seqs [percent_grp, rstar space, lit ''%'', rstar space, ropt tax_words],
     seqs [tax_words, rstar (Chr colon_space), percent_grp, rstar space, lit ''%''],
     seqs [liti ''rate'', rstar (Chr colon_space), percent_grp, rstar space, lit ''%''],
     seqs [percent_grp, rstar space, lit ''%'']]"

text \<open>\<open>taxPercentMatch[2] || taxPercentMatch[1]\<close>\<close>

definition percentValue :: "mres \<Rightarrow> cu list option" where
  "percentValue res = (case grp_truthy res 2 of Some w \<Rightarrow> Some w | None \<Rightarrow> grp res 1)"

fun find_percent :: "regex list \<Rightarrow> cu list \<Rightarrow> jsnum option" where
  "find_percent [] t = None"
| "find_percent (p # ps) t = (case str_match p t of
       None \<Rightarrow> find_percent ps t
     | Some res \<Rightarrow> (case percentValue res of
         None \<Rightarrow> find_percent ps t
       | Some w \<Rightarrow>
           if w \<noteq> [] \<and> num_le (Fin 0 0) (parseFloat w) \<and> num_le (parseFloat w) (num_of_int 25)
           then Some (parseFloat w)
           else find_percent ps t))"

definition extract_percent :: "cu list \<Rightarrow> ReceiptData \<Rightarrow> ReceiptData" where
  "extract_percent t d = (case find_percent taxPercentPatterns t of
       None \<Rightarrow> d
     | Some v \<Rightarrow> d\<lparr>taxPercentage := Some v\<rparr>)"

subsection \<open>Tax amount\<close>

text \<open>
  The first pattern of the source is written with doubled backslashes inside a regular
  expression literal, \<open>/([\\d,]+\\.\\d{2})\\s+total\\s+([\\d,]+\\.?\\d*)/i\<close>: \<open>\\\<close> is a
  backslash to be found in the text, \<open>[\\d,]\<close> is the class of the backslash, the letter d
  and the comma, \<open>d{2}\<close> two letters d, \<open>s+\<close> letters s.
\<close>

definition backslash :: regex where
  "backslash = Lit False [92]"

definition backslash_d_comma :: "cu \<Rightarrow> bool" where
  "backslash_d_comma c = (c = 92 \<or> canonicalize c = 68 \<or> c = 44)"

definition amount_grp :: "nat \<Rightarrow> regex" where
  "amount_grp i = Grp i (seqs [rplus (Chr digit_comma), ropt (lit ''.''), rstar digit])"

definition taxAmountPatterns :: "regex list" where
  "taxAmountPatterns =
    [seqs [Grp 1 (seqs [rplus (Chr backslash_d_comma), backslash, Chr is_dot, backslash,
                        rtimes 2 2 (liti ''d'')]),
           backslash, rplus (liti ''s''), liti ''total'', backslash, rplus (liti ''s''),
           Grp 2 (seqs [rplus (Chr backslash_d_comma), backslash, ropt (Chr is_dot), backslash,
                        rstar (liti ''d'')])],
     seqs [amount_grp 1, rstar space, lit ''|'', rstar space, Grp 2 (rplus digit), rstar space,
           lit ''|'', rstar space, amount_grp 3],
     seqs [liti ''total'', rplus space, liti ''impuesto'', rstar (Chr non_digit), amount_grp 1],
     seqs [liti ''toul'', rplus space, liti ''impusstel'', rstar (Chr non_digit), amount_grp 1],
     seqs [liti ''total'', rplus space, liti ''tax'', rstar (Chr non_digit), amount_grp 1],
     seqs [alts [liti ''itbms'', liti ''impuesto'', liti ''iva'', liti ''vat'',
                 seqs [liti ''sales'', rplus space, liti ''tax''], liti ''gst''],
           NLook (Seq (rstar (Chr is_dot)) (liti ''unitario'')),
           rstar (Chr non_digit),
           Grp 1 (seqs [rtimes 1 3 digit, rstar (Seq (Chr dot_comma) (rtimes 3 3 digit)),
                        ropt (Seq (Chr dot_comma) (rtimes 1 2 digit))]),
           Alt space Eos],
     seqs [liti ''tax'', rstar (Chr colon_space), money_grp, rstar space, ropt (liti ''amount'')]]"

text \<open>The candidate of one match; \<open>None\<close> is the \<open>null\<close> of the source.\<close>

definition taxValue :: "mres \<Rightarrow> jsnum option" where
  "taxValue res = (case grp_truthy res 3 of
       Some w3 \<Rightarrow> Some (without_commas w3)
     | None \<Rightarrow> (case grp_truthy res 1 of
         None \<Rightarrow> None
       | Some w1 \<Rightarrow> (case grp_truthy res 2 of
           None \<Rightarrow> Some (without_commas w1)
         | Some w2 \<Rightarrow> if num_lt (without_commas w1) (without_commas w2)
                      then Some (without_commas w1) else None)))"

definition below :: "jsnum \<Rightarrow> jsnum option \<Rightarrow> bool" where
  "below v bound = (\<not> truthy_opt bound \<or> (case bound of None \<Rightarrow> False | Some b \<Rightarrow> num_lt v b))"

fun find_tax :: "regex list \<Rightarrow> cu list \<Rightarrow> ReceiptData \<Rightarrow> jsnum option" where
  "find_tax [] t d = None"
| "find_tax (p # ps) t d = (case str_match p t of
       None \<Rightarrow> find_tax ps t d
     | Some res \<Rightarrow> (case taxValue res of
         None \<Rightarrow> find_tax ps t d
       | Some v \<Rightarrow>
           if num_le (Fin 0 0) v \<and> below v (amount d) \<and> below v (subtotalAmount d) then Some v
           else find_tax ps t d))"

definition extract_tax :: "cu list \<Rightarrow> ReceiptData \<Rightarrow> ReceiptData" where
  "extract_tax t d = (case find_tax taxAmountPatterns t d of
       None \<Rightarrow> d
     | Some v \<Rightarrow> d\<lparr>taxAmount := Some v\<rparr>)"

subsection \<open>Total\<close>

definition totalPatterns :: "regex list" where
  "totalPatterns =
    [seqs ([liti ''total'', rplus space, liti ''pagado''] @ money_tail @ [money_grp]),
     seqs ([liti ''valor'', rplus space, liti ''total''] @ money_tail @ [money_grp]),
     seqs ([liti ''total'',
            ropt (seqs [rplus space, liti ''a'', rplus space, liti ''pagar''])]
           @ money_tail @ [money_grp]),
     seqs ([liti ''total'', rplus space, liti ''general''] @ money_tail @ [money_grp]),
     seqs ([liti ''importe'', rplus space, liti ''total''] @ money_tail @ [money_grp]),
     seqs ([liti ''gran'', rplus space, liti ''total''] @ money_tail @ [money_grp]),
     seqs ([liti ''amount'', rplus space, liti ''paid''] @ money_tail @ [money_grp]),
     seqs ([liti ''total''] @ money_tail @ [money_grp])]"

fun find_total :: "regex list \<Rightarrow> cu list \<Rightarrow> jsnum option" where
  "find_total [] t = None"
| "find_total (p # ps) t = (case str_match p t of
       None \<Rightarrow> find_total ps t
     | Some res \<Rightarrow> (case grp_truthy res 1 of
         None \<Rightarrow> find_total ps t
       | Some w \<Rightarrow> if isNaN (parseCurrency w) then find_total ps t else Some (parseCurrency w)))"

text \<open>The total of the patterns, else the largest money candidate, then two decimals.\<close>

definition extract_total :: "jsnum list \<Rightarrow> ReceiptData \<Rightarrow> ReceiptData" where
  "extract_total sa d =
     (let d1 = (case find_total totalPatterns (rawText d) of
                  None \<Rightarrow> d
                | Some v \<Rightarrow> d\<lparr>amount := Some v\<rparr>);
          d2 = (if \<not> truthy_opt (amount d1) \<and> truthy_opt (maxAmount sa)
                then d1\<lparr>amount := maxAmount sa\<rparr> else d1)
      in if truthy_opt (amount d2) then d2\<lparr>amount := map_option round2 (amount d2)\<rparr> else d2)"

subsection \<open>Date\<close>

definition slash_dash :: "cu \<Rightarrow> bool" where
  "slash_dash c = (c = 47 \<or> c = 45)"

text \<open>\<open>\d{1,2}[\/\-]\d{1,2}[\/\-]\d{2,4}\<close> and \<open>\d{4}[\/\-]\d{1,2}[\/\-]\d{1,2}\<close>\<close>

definition day_first :: regex where
  "day_first = seqs [rtimes 1 2 digit, Chr slash_dash, rtimes 1 2 digit, Chr slash_dash,
     rtimes 2 4 digit]"

definition year_first :: regex where
  "year_first = seqs [rtimes 4 4 digit, Chr slash_dash, rtimes 1 2 digit, Chr slash_dash,
     rtimes 1 2 digit]"

definition labeledDatePattern :: regex where
  "labeledDatePattern = seqs
     [alts [liti ''fecha'', liti ''date'', seqs [liti ''fecha'', rplus space, liti ''de'']],
      rstar (Chr (\<lambda>c. \<not> (is_digit c \<or> is_alpha c))),
      Grp 1 (Alt day_first year_first)]"

definition monthNames :: regex where
  "monthNames = alts (map liti
     [''enero'', ''febrero'', ''marzo'', ''abril'', ''mayo'', ''junio'', ''julio'', ''agosto'',
      ''septiembre'', ''octubre'', ''noviembre'', ''diciembre'',
      ''jan'', ''feb'', ''mar'', ''apr'', ''may'', ''jun'', ''jul'', ''aug'', ''sep'', ''oct'',
      ''nov'', ''dec'',
      ''january'', ''february'', ''march'', ''april'', ''may'', ''june'', ''july'', ''august'',
      ''september'', ''october'', ''november'', ''december''])"

definition datePattern :: regex where
  "datePattern = Alt (Grp 1 day_first)
     (seqs [monthNames, rplus space, rtimes 1 2 digit, ropt (lit '',''), rplus space,
            rtimes 4 4 digit])"

definition find_date :: "cu list \<Rightarrow> cu list option" where
  "find_date txt = (case (case str_match labeledDatePattern txt of
                           None \<Rightarrow> None
                         | Some res \<Rightarrow> grp_truthy res 1) of
       Some w \<Rightarrow> Some w
     | None \<Rightarrow> map_option m_text (str_match datePattern txt))"

definition extract_date :: "cu list \<Rightarrow> ReceiptData \<Rightarrow> ReceiptData" where
  "extract_date txt d = (case find_date txt of None \<Rightarrow> d | Some w \<Rightarrow> d\<lparr>date := Some w\<rparr>)"

subsection \<open>Vendor name\<close>

definition o_acute :: "cu \<Rightarrow> bool" where
  "o_acute c = (canonicalize c = 79 \<or> canonicalize c = 211)"

definition u_acute :: "cu \<Rightarrow> bool" where
  "u_acute c = (canonicalize c = 85 \<or> canonicalize c = 218)"

definition line_grp :: regex where
  "line_grp = Grp 1 (rplus (Chr (\<lambda>c. c \<noteq> 10)))"

definition vendorPatterns :: "regex list" where
  "vendorPatterns =
    [seqs [alts [liti ''emisor'',
                 seqs [liti ''raz'', Chr o_acute, liti ''n'', rplus space, liti ''social''],
                 liti ''rnc'', liti ''nit''],
           rstar (Chr colon_space), line_grp],
     seqs [alts [liti ''vendor'', liti ''vendedor'', liti ''supplier'',
                 seqs [liti ''supplier'', rplus space, liti ''name''], liti ''nombre''],
           rstar (Chr colon_space), line_grp],
     seqs [alts [liti ''empresa'', liti ''company'', liti ''business''],
           rstar (Chr colon_space), line_grp],
     seqs [alts [seqs [liti ''nombre'', rplus space, liti ''comercial''],
                 seqs [liti ''trade'', rplus space, liti ''name'']],
           rstar (Chr colon_space), line_grp]]"

fun find_vendor :: "regex list \<Rightarrow> cu list \<Rightarrow> cu list option" where
  "find_vendor [] t = None"
| "find_vendor (p # ps) t = (case str_match p t of
       None \<Rightarrow> find_vendor ps t
     | Some res \<Rightarrow> (case grp_truthy res 1 of
         None \<Rightarrow> find_vendor ps t
       | Some w \<Rightarrow> Some (trim w)))"

text \<open>\<open>text.split('\n')\<close>\<close>

fun split_lines :: "cu list \<Rightarrow> cu list \<Rightarrow> cu list list" where
  "split_lines acc [] = [rev acc]"
| "split_lines acc (c # cs) = (if c = 10 then rev acc # split_lines [] cs
     else split_lines (c # acc) cs)"

definition is_upper :: "cu \<Rightarrow> bool" where
  "is_upper c = (65 \<le> c \<and> c \<le> 90)"

definition skipPatterns :: "regex list" where
  "skipPatterns =
    [liti ''factura'', liti ''invoice'', liti ''receipt'', liti ''comprobante'', liti ''fecha'',
     liti ''date'', liti ''folio'',
     seqs [liti ''pag'', Chr (\<lambda>c. canonicalize c = 73 \<or> canonicalize c = 65), liti ''na''],
     liti ''http'',
     seqs [Bos, rplus digit, Eos],
     seqs [Bos, Chr is_upper, Eos],
     liti ''ticket'']"

definition skip_line :: "cu list \<Rightarrow> bool" where
  "skip_line l = (length l < 3 \<or> list_ex (\<lambda>p. test p l) skipPatterns
     \<or> (test digit l \<and> test (Chr is_alpha) l \<and> length l < 6))"

fun first_line :: "cu list list \<Rightarrow> cu list option" where
  "first_line [] = None"
| "first_line (l # ls) = (if skip_line l then first_line ls else Some l)"

definition truthy_str :: "cu list option \<Rightarrow> bool" where
  "truthy_str v = (case v of None \<Rightarrow> False | Some w \<Rightarrow> w \<noteq> [])"

definition extract_vendor :: "cu list \<Rightarrow> ReceiptData \<Rightarrow> ReceiptData" where
  "extract_vendor txt d =
     (let d1 = (case find_vendor vendorPatterns (rawText d) of
                  None \<Rightarrow> d
                | Some w \<Rightarrow> d\<lparr>vendorName := Some w\<rparr>)
      in if truthy_str (vendorName d1) then d1
         else (case first_line (filter (\<lambda>l. l \<noteq> []) (map trim (split_lines [] txt))) of
                 None \<Rightarrow> d1
               | Some l \<Rightarrow> d1\<lparr>vendorName := Some l\<rparr>))"

subsection \<open>Invoice number\<close>

text \<open>\<open>([0-9A-Z-]{3,})\<close> under the \<open>i\<close> flag, and \<open>[:\s]*\<close>, \<open>[:\s#]*\<close> before it.\<close>

definition id_grp :: regex where
  "id_grp = Grp 1 (rleast 3 (Chr (\<lambda>c. is_digit c \<or> is_alpha c \<or> c = 45)))"

definition colon_space_hash :: "cu \<Rightarrow> bool" where
  "colon_space_hash c = (c = 58 \<or> is_space c \<or> c = 35)"

definition invoicePatterns :: "regex list" where
  "invoicePatterns =
    [seqs [liti ''n'', Chr u_acute, liti ''mero'', rstar (Chr colon_space), id_grp],
     seqs [liti ''invoice'', rstar space,
           ropt (alts [seqs [liti ''no'', ropt (lit ''.'')],
                       seqs [liti ''n'', Chr u_acute, liti ''m'', ropt (lit ''.'')],
                       lit ''#'']),
           rstar (Chr colon_space), id_grp],
     seqs [liti ''inv'', ropt (lit ''.''), rstar space, lit ''#'', rstar (Chr colon_space), id_grp],
     seqs [liti ''receipt'', rstar space, lit ''#'', rstar (Chr colon_space), id_grp],
     seqs [liti ''order'', rstar space, lit ''#'', rstar (Chr colon_space), id_grp],
     seqs [liti ''folio'', rstar (Chr colon_space_hash), id_grp],
     seqs [liti ''serie'', rstar (Chr colon_space_hash), id_grp],
     seqs [liti ''consecutivo'', rstar (Chr colon_space_hash), id_grp]]"

definition is_identifier :: "cu list \<Rightarrow> bool" where
  "is_identifier c =
     (\<not> test (seqs [Bos, day_first, Eos]) c
      \<and> \<not> test (seqs [Bos, Grp 1 (alts [liti ''electronica'', liti ''interna'', liti ''auxiliar'']),
                       Eos]) c
      \<and> \<not> test (Seq (liti ''cion'') Eos) c
      \<and> test digit c)"

fun find_invoice :: "regex list \<Rightarrow> cu list \<Rightarrow> cu list option" where
  "find_invoice [] t = None"
| "find_invoice (p # ps) t = (case str_match p t of
       None \<Rightarrow> find_invoice ps t
     | Some res \<Rightarrow> (case grp_truthy res 1 of
         None \<Rightarrow> find_invoice ps t
       | Some w \<Rightarrow> if is_identifier (trim w) then Some (trim w) else find_invoice ps t))"

definition extract_invoice :: "ReceiptData \<Rightarrow> ReceiptData" where
  "extract_invoice d = (case find_invoice invoicePatterns (rawText d) of
       None \<Rightarrow> d
     | Some w \<Rightarrow> d\<lparr>invoiceNumber := Some w\<rparr>)"

section \<open>The parser: reconciliation\<close>

text \<open>
  The steps of the post-processing, in the order of the source (Paso 1, 2, 2.5, 3, ... 8).
  A test \<open>data.x\<close> of the source is \<open>truthy_opt\<close>, a test \<open>data.x !== undefined\<close> is
  \<open>x \<noteq> None\<close>.
\<close>

definition zero :: jsnum where
  "zero = Fin 0 0"

definition hundred :: jsnum where
  "hundred = num_of_int 100"

text \<open>\<open>parseFloat((a - b).toFixed(2))\<close>, \<open>parseFloat((a + b).toFixed(2))\<close> and
  \<open>parseFloat(((t / s) * 100).toFixed(2))\<close>.\<close>

definition diff2 :: "jsnum \<Rightarrow> jsnum \<Rightarrow> jsnum" where
  "diff2 a b = round2 (num_sub a b)"

definition sum2 :: "jsnum \<Rightarrow> jsnum \<Rightarrow> jsnum" where
  "sum2 a b = round2 (num_add a b)"

definition percent_of :: "jsnum \<Rightarrow> jsnum \<Rightarrow> jsnum" where
  "percent_of t s = round2 (num_mul (num_div t s) hundred)"

text \<open>\<open>/(?:itbms|tax|impuesto)[^0-9]*0+\.0+/i\<close>\<close>

definition zero_tax_re :: regex where
  "zero_tax_re = seqs [alts [liti ''itbms'', liti ''tax'', liti ''impuesto''],
     rstar (Chr non_digit), rplus (lit ''0''), lit ''.'', rplus (lit ''0'')]"

definition step1 :: "ReceiptData \<Rightarrow> ReceiptData" where
  "step1 d =
     (if truthy_opt (amount d) \<and> \<not> truthy_opt (taxAmount d) \<and> \<not> truthy_opt (taxPercentage d)
      then (if test zero_tax_re (rawText d)
            then d\<lparr>taxAmount := Some zero, taxPercentage := Some zero, subtotalAmount := amount d\<rparr>
            else d)
      else d)"

definition step2 :: "ReceiptData \<Rightarrow> ReceiptData" where
  "step2 d = (case (amount d, taxAmount d) of
       (Some a, Some t) \<Rightarrow>
         if \<not> truthy_opt (subtotalAmount d) then d\<lparr>subtotalAmount := Some (diff2 a t)\<rparr> else d
     | _ \<Rightarrow> d)"

definition step2_5 :: "ReceiptData \<Rightarrow> ReceiptData" where
  "step2_5 d = (case (amount d, taxPercentage d) of
       (Some a, Some p) \<Rightarrow>
         if \<not> truthy_opt (subtotalAmount d) \<and> truthy a \<and> truthy p then
           (let s = round2 (num_div a (num_add (num_of_int 1) (num_div p hundred)));
                d1 = d\<lparr>subtotalAmount := Some s\<rparr>
            in if taxAmount d1 = None then d1\<lparr>taxAmount := Some (diff2 a s)\<rparr> else d1)
         else d
     | _ \<Rightarrow> d)"

definition step3 :: "ReceiptData \<Rightarrow> ReceiptData" where
  "step3 d = (case (subtotalAmount d, taxPercentage d) of
       (Some s, Some p) \<Rightarrow>
         if truthy s then
           (let calculatedTax = round2 (num_mul s (num_div p hundred))
            in case taxAmount d of
                 Some t \<Rightarrow>
                   if num_lt (dec 5 2) (num_abs (num_sub calculatedTax t))
                   then d\<lparr>taxAmount := Some calculatedTax\<rparr> else d
               | None \<Rightarrow> d\<lparr>taxAmount := Some calculatedTax\<rparr>)
         else d
     | _ \<Rightarrow> d)"

definition step4 :: "ReceiptData \<Rightarrow> ReceiptData" where
  "step4 d = (case (amount d, subtotalAmount d) of
       (Some a, Some s) \<Rightarrow>
         if taxAmount d = None \<and> truthy a \<and> truthy s then d\<lparr>taxAmount := Some (diff2 a s)\<rparr>
         else d
     | _ \<Rightarrow> d)"

definition step5 :: "ReceiptData \<Rightarrow> ReceiptData" where
  "step5 d = (case (taxAmount d, subtotalAmount d) of
       (Some t, Some s) \<Rightarrow>
         if \<not> truthy_opt (taxPercentage d) \<and> truthy s \<and> num_lt zero s
         then d\<lparr>taxPercentage := Some (percent_of t s)\<rparr> else d
     | _ \<Rightarrow> d)"

definition step6 :: "ReceiptData \<Rightarrow> ReceiptData" where
  "step6 d = (case (subtotalAmount d, taxAmount d) of
       (Some s, Some t) \<Rightarrow>
         if \<not> truthy_opt (amount d) \<and> truthy s then d\<lparr>amount := Some (sum2 s t)\<rparr> else d
     | _ \<Rightarrow> d)"

definition step7 :: "ReceiptData \<Rightarrow> ReceiptData" where
  "step7 d = (case (subtotalAmount d, taxAmount d, amount d) of
       (Some s, Some t, Some a) \<Rightarrow>
         if truthy s \<and> truthy a \<and> num_lt (dec 10 2) (num_abs (num_sub (sum2 s t) a)) then
           (let d1 = d\<lparr>taxAmount := Some (diff2 a s)\<rparr>
            in if num_lt zero s then d1\<lparr>taxPercentage := Some (percent_of (diff2 a s) s)\<rparr>
               else d1)
         else d
     | _ \<Rightarrow> d)"

text \<open>\<open>sortedAmounts.length > 1 && sortedAmounts[1] < data.amount && sortedAmounts[1] > 0\<close>\<close>

definition second_candidate :: "jsnum list \<Rightarrow> jsnum \<Rightarrow> jsnum option" where
  "second_candidate sa a = (case sa of
       x # y # ys \<Rightarrow> if num_lt y a \<and> num_lt zero y then Some y else None
     | _ \<Rightarrow> None)"

definition step8 :: "jsnum list \<Rightarrow> ReceiptData \<Rightarrow> ReceiptData" where
  "step8 sa d = (case amount d of
       Some a \<Rightarrow>
         if \<not> truthy_opt (subtotalAmount d) then
           (case second_candidate sa a of
              Some y \<Rightarrow>
                (let d1 = d\<lparr>subtotalAmount := Some y\<rparr>
                 in if \<not> truthy_opt (taxAmount d1) then d1\<lparr>taxAmount := Some (diff2 a y)\<rparr>
                    else d1)
            | None \<Rightarrow> d\<lparr>subtotalAmount := Some a\<rparr>)
         else d
     | None \<Rightarrow> d)"

definition steps1_7 :: "ReceiptData \<Rightarrow> ReceiptData" where
  "steps1_7 d = step7 (step6 (step5 (step4 (step3 (step2_5 (step2 (step1 d)))))))"

definition reconcile :: "jsnum list \<Rightarrow> ReceiptData \<Rightarrow> ReceiptData" where
  "reconcile sa d = step8 sa (steps1_7 d)"

section \<open>The parser: parse\<close>

definition empty_data :: "cu list \<Rightarrow> ReceiptData" where
  "empty_data raw = \<lparr>rawText = raw, amount = None, subtotalAmount = None, taxAmount = None,
     taxPercentage = None, invoiceNumber = None, date = None, vendorName = None\<rparr>"

text \<open>The record after the seven extractions, before the post-processing.\<close>

definition extract_fields :: "cu list \<Rightarrow> ReceiptData" where
  "extract_fields raw =
     (let txt = normalize_text raw; t = extractionText txt
      in extract_invoice
          (extract_vendor txt
            (extract_date txt
              (extract_total (sortedAmounts raw)
                (extract_tax t
                  (extract_percent t
                    (extract_subtotal t (empty_data raw))))))))"

definition parse :: "cu list \<Rightarrow> ReceiptData" where
  "parse raw = reconcile (sortedAmounts raw) (extract_fields raw)"

section \<open>Inputs of the scenarios\<close>

definition scenario_A :: "cu list" where
  "scenario_A = str ''Acme Corp\<newline>Subtotal: $100.00\<newline>Tax 7%\<newline>Total: $107.00''"

definition scenario_B :: "cu list" where
  "scenario_B = str ''ITBMS 0.00\<newline>Total: $50.00''"

definition scenario_C :: "cu list" where
  "scenario_C = str ''Total: 110.00\<newline>Subtotal: 100.00\<newline>Tax: 5.00''"

definition scenario_D :: "cu list" where
  "scenario_D = str ''MOCK TEXT: TOTAL $88.00''"

definition two_number_line :: "cu list" where
  "two_number_line = str ''Desglose\<newline>7.00 total 107.00''"

definition tax_equals_total :: "cu list" where
  "tax_equals_total = str ''Total 5\<newline>Tax 5''"

definition total_below_subtotal :: "cu list" where
  "total_below_subtotal = str ''Total: 5\<newline>Subtotal: 100''"

definition rounding_slack :: "cu list" where
  "rounding_slack = str ''Total: 110.00\<newline>Subtotal: 100.004\<newline>Tax: 10.10''"

definition tax_above_subtotal :: "cu list" where
  "tax_above_subtotal = str ''ITBMS\<newline>5\<newline>7%''"

definition overflow_total :: "cu list" where
  "overflow_total = str ''Total 7% page total pagado 2'' @ replicate 308 48"

section \<open>Predicates of the claims\<close>

text \<open>
  A tax percentage as the extraction accepts it, between 0 and 25; a record whose
  percentage is absent or such a rate; and a record whose percentage is the one the
  reconciliation computes from its own tax amount and positive subtotal.
\<close>

definition rate_in_range :: "jsnum \<Rightarrow> bool" where
  "rate_in_range p = (num_le zero p \<and> num_le p (num_of_int 25))"

definition read_rate :: "ReceiptData \<Rightarrow> bool" where
  "read_rate d = (case taxPercentage d of None \<Rightarrow> True | Some p \<Rightarrow> rate_in_range p)"

definition recomputed_rate :: "ReceiptData \<Rightarrow> bool" where
  "recomputed_rate d = (case (taxAmount d, subtotalAmount d) of
       (Some t, Some s) \<Rightarrow> truthy s \<and> num_lt zero s \<and> taxPercentage d = Some (percent_of t s)
     | _ \<Rightarrow> False)"

text \<open>
  The fields the reconciliation reads and writes, and the extraction of these fields alone.
\<close>

definition numbers_of ::
  "ReceiptData \<Rightarrow> cu list \<times> jsnum option \<times> jsnum option \<times> jsnum option \<times> jsnum option"
  where
  "numbers_of d = (rawText d, amount d, subtotalAmount d, taxAmount d, taxPercentage d)"

definition extract_numbers :: "cu list \<Rightarrow> ReceiptData" where
  "extract_numbers raw =
     (let t = extractionText (normalize_text raw)
      in extract_total (sortedAmounts raw)
           (extract_tax t (extract_percent t (extract_subtotal t (empty_data raw)))))"

text \<open>
  A pattern that takes exactly one code unit of a class, and the group \<open>\.\d{3}\<close> of the
  dot-thousands shape.
\<close>

definition single :: "int \<Rightarrow> regex \<Rightarrow> (cu \<Rightarrow> bool) \<Rightarrow> bool" where
  "single len r P = (\<forall>k x. rmatch len r k x = (case rest x of
       [] \<Rightarrow> None
     | c # cs \<Rightarrow> if P c then k (MState cs (Some c) (pos x + 1) (caps x)) else None))"

definition dot_group :: regex where
  "dot_group = Seq (Lit False [46]) (Rep 3 (Some 3) True (Chr is_digit))"

text \<open>
  States and continuations of a match. A state is valid when its position and the text
  left add up to the length of the input. A matcher is good when it calls its continuation
  on valid states at or after its own state only, sourced when each of its results is a
  result of its continuation, consuming when it calls its continuation beyond its own
  position only.
\<close>

definition valid :: "int \<Rightarrow> mstate \<Rightarrow> bool" where
  "valid len x = (pos x + int (length (rest x)) = len)"

definition restrict :: "int \<Rightarrow> mstate \<Rightarrow> cont \<Rightarrow> cont" where
  "restrict len x k = (\<lambda>y. if pos x \<le> pos y \<and> valid len y then k y else None)"

definition good :: "int \<Rightarrow> matcher \<Rightarrow> bool" where
  "good len f = (\<forall>k x. valid len x \<longrightarrow> f k x = f (restrict len x k) x)"

definition sourced :: "matcher \<Rightarrow> bool" where
  "sourced f = (\<forall>k x z. f k x = Some z \<longrightarrow> (\<exists>y. k y = Some z))"

definition strict :: "int \<Rightarrow> mstate \<Rightarrow> cont \<Rightarrow> cont" where
  "strict len x k = (\<lambda>y. if pos x < pos y \<and> valid len y then k y else None)"

definition consuming :: "int \<Rightarrow> matcher \<Rightarrow> bool" where
  "consuming len f = (\<forall>k x. valid len x \<longrightarrow> f k x = f (strict len x k) x)"

section \<open>The parser on the scenarios\<close>

lemma parse_scenario_A:
  "parse scenario_A = \<lparr>rawText = scenario_A, amount = Some (num_of_int 100),
     subtotalAmount = Some (num_of_int 93), taxAmount = Some (num_of_int 7),
     taxPercentage = Some (dec 753 2), invoiceNumber = None, date = None,
     vendorName = Some (str ''Acme Corp'')\<rparr>"
  by code_simp

lemma parse_scenario_B:
  "parse scenario_B = \<lparr>rawText = scenario_B, amount = Some (num_of_int 50),
     subtotalAmount = Some (num_of_int 50), taxAmount = Some zero, taxPercentage = Some zero,
     invoiceNumber = None, date = None, vendorName = Some (str ''ITBMS 0.00'')\<rparr>"
  by code_simp

lemma extract_scenario_C:
  "extract_fields scenario_C = \<lparr>rawText = scenario_C, amount = Some (num_of_int 110),
     subtotalAmount = Some (num_of_int 100), taxAmount = Some (num_of_int 5),
     taxPercentage = None, invoiceNumber = None, date = None,
     vendorName = Some (str ''Total: 110.00'')\<rparr>"
  by code_simp

lemma parse_scenario_D:
  "parse scenario_D = \<lparr>rawText = scenario_D, amount = Some (num_of_int 88),
     subtotalAmount = Some (num_of_int 88), taxAmount = None, taxPercentage = None,
     invoiceNumber = None, date = None, vendorName = Some (str ''MOCK TEXT: TOTAL $88.00'')\<rparr>"
  by code_simp

lemma extract_two_number_line:
  "extract_fields two_number_line = \<lparr>rawText = two_number_line, amount = Some (num_of_int 107),
     subtotalAmount = None, taxAmount = None, taxPercentage = None, invoiceNumber = None,
     date = None, vendorName = Some (str ''Desglose'')\<rparr>"
  by code_simp

lemma parse_two_number_line:
  "parse two_number_line = \<lparr>rawText = two_number_line, amount = Some (num_of_int 107),
     subtotalAmount = Some (num_of_int 7), taxAmount = Some (num_of_int 100),
     taxPercentage = None, invoiceNumber = None, date = None,
     vendorName = Some (str ''Desglose'')\<rparr>"
  by code_simp

lemma parse_tax_equals_total:
  "parse tax_equals_total = \<lparr>rawText = tax_equals_total, amount = Some (num_of_int 5),
     subtotalAmount = Some (num_of_int 5), taxAmount = Some (num_of_int 5),
     taxPercentage = None, invoiceNumber = None, date = None,
     vendorName = Some (str ''Total 5'')\<rparr>"
  by code_simp

lemma parse_total_below_subtotal:
  "parse total_below_subtotal = \<lparr>rawText = total_below_subtotal, amount = Some (num_of_int 5),
     subtotalAmount = Some (num_of_int 100), taxAmount = Some (num_of_int (- 95)),
     taxPercentage = Some (num_of_int (- 95)), invoiceNumber = None, date = None,
     vendorName = Some (str ''Total: 5'')\<rparr>"
  by code_simp

lemma parse_rounding_slack:
  "parse rounding_slack = \<lparr>rawText = rounding_slack, amount = Some (num_of_int 110),
     subtotalAmount = Some (dec 100004 3), taxAmount = Some (dec 1010 2),
     taxPercentage = Some (dec 1010 2), invoiceNumber = None, date = None,
     vendorName = Some (str ''Total: 110.00'')\<rparr>"
  by code_simp

lemma parse_tax_above_subtotal:
  "parse tax_above_subtotal = \<lparr>rawText = tax_above_subtotal, amount = Some (num_of_int 7),
     subtotalAmount = Some (num_of_int 2), taxAmount = Some (num_of_int 5),
     taxPercentage = Some (num_of_int 250), invoiceNumber = None, date = None,
     vendorName = Some (str ''ITBMS'')\<rparr>"
  by code_simp

lemma reconcile_scenario_C:
  "reconcile sa \<lparr>rawText = r, amount = Some (num_of_int 110),
       subtotalAmount = Some (num_of_int 100), taxAmount = Some (num_of_int 5),
       taxPercentage = None, invoiceNumber = i, date = dt, vendorName = v\<rparr>
   = \<lparr>rawText = r, amount = Some (num_of_int 110), subtotalAmount = Some (num_of_int 100),
       taxAmount = Some (num_of_int 10), taxPercentage = Some (num_of_int 10),
       invoiceNumber = i, date = dt, vendorName = v\<rparr>"
  by code_simp

lemma steps_tax_equals_total:
  "numbers_of (steps1_7 (extract_fields tax_equals_total))
   = (tax_equals_total, Some (num_of_int 5), Some zero, Some (num_of_int 5), None)"
  by code_simp

lemma steps_scenario_D:
  "subtotalAmount (steps1_7 (extract_fields scenario_D)) = None"
  by code_simp

lemma steps_two_number_line:
  "subtotalAmount (steps1_7 (extract_fields two_number_line)) = None"
  unfolding extract_two_number_line by code_simp

lemma sortedAmounts_scenario_D: "sortedAmounts scenario_D = [num_of_int 88]"
  by code_simp

lemma sortedAmounts_two_number_line:
  "sortedAmounts two_number_line = [num_of_int 107, num_of_int 7]"
  by code_simp

section \<open>The position tests of the matcher never fail\<close>

text \<open>
  The functions \<open>rep\<close>, \<open>replace_from\<close> and \<open>exec_all\<close> test positions so that their recursion
  is well founded. From a valid state the tests are always passed: \<open>rep\<close> satisfies the
  equation of RepeatMatcher of the ECMAScript specification, whose only test is the one
  for an empty iteration, and the two loops go on after every match.
\<close>

lemma restrict_self: "valid len x \<Longrightarrow> restrict len x k x = k x"
  by (simp add: restrict_def)

lemma restrict_restrict:
  "pos x \<le> pos y \<Longrightarrow> restrict len y (restrict len x k) = restrict len y k"
  by (auto simp add: restrict_def fun_eq_iff)

lemma good_cong:
  assumes "good len f" "valid len x"
    and "\<And>y. pos x \<le> pos y \<Longrightarrow> valid len y \<Longrightarrow> k y = k' y"
  shows "f k x = f k' x"
proof -
  have "restrict len x k = restrict len x k'"
    using assms(3) by (auto simp add: restrict_def fun_eq_iff)
  then show ?thesis
    using assms(1,2) unfolding good_def by metis
qed

lemma lit_match_restrict:
  "valid len x' \<Longrightarrow> pos x \<le> pos x' \<Longrightarrow>
   lit_match ic w k x' = lit_match ic w (restrict len x k) x'"
proof (induction w arbitrary: x')
  case Nil
  then show ?case
    by (simp add: restrict_def)
next
  case (Cons p ps)
  show ?case
  proof (cases "rest x'")
    case Nil
    then show ?thesis
      by simp
  next
    case (Cons c cs)
    have "valid len (MState cs (Some c) (pos x' + 1) (caps x'))"
      using Cons.prems(1) Cons by (simp add: valid_def)
    moreover have "pos x \<le> pos (MState cs (Some c) (pos x' + 1) (caps x'))"
      using Cons.prems(2) by simp
    ultimately show ?thesis
      using Cons Cons.IH by simp
  qed
qed

lemma good_rep:
  assumes g: "good len f"
  shows "valid len x \<Longrightarrow> rep len f mn mx gr k x = rep len f mn mx gr (restrict len x k) x"
proof (induction "nat (len - pos x) + mn" arbitrary: x mn mx k rule: less_induct)
  case less
  note v = \<open>valid len x\<close>
  let ?k' = "restrict len x k"
  have step: "rep len f n (dec_max mx) gr k y = rep len f n (dec_max mx) gr ?k' y"
    if le: "pos x \<le> pos y" and vy: "valid len y" and dec: "nat (len - pos y) + n < nat (len - pos x) + mn"
    for y n
  proof -
    have "rep len f n (dec_max mx) gr k y = rep len f n (dec_max mx) gr (restrict len y k) y"
      by (rule less.hyps [OF dec vy])
    also have "\<dots> = rep len f n (dec_max mx) gr (restrict len y ?k') y"
      by (simp add: restrict_restrict [OF le])
    also have "\<dots> = rep len f n (dec_max mx) gr ?k' y"
      by (rule less.hyps [OF dec vy, symmetric])
    finally show ?thesis .
  qed
  show ?case
  proof (cases "mx = Some 0")
    case True
    then show ?thesis
      unfolding rep.simps [of len f mn mx gr k x] rep.simps [of len f mn mx gr ?k' x]
      using v by (simp add: restrict_self)
  next
    case nz: False
    show ?thesis
    proof (cases "mn = 0")
      case False
      have "f (\<lambda>y. if pos x \<le> pos y then rep len f (mn - 1) (dec_max mx) gr k y else None) x
          = f (\<lambda>y. if pos x \<le> pos y then rep len f (mn - 1) (dec_max mx) gr ?k' y else None) x"
      proof (rule good_cong [OF g v])
        fix y
        assume le: "pos x \<le> pos y" and vy: "valid len y"
        have "nat (len - pos y) + (mn - 1) < nat (len - pos x) + mn"
          using le False by linarith
        from step [OF le vy this]
        show "(if pos x \<le> pos y then rep len f (mn - 1) (dec_max mx) gr k y else None)
            = (if pos x \<le> pos y then rep len f (mn - 1) (dec_max mx) gr ?k' y else None)"
          by simp
      qed
      then show ?thesis
        unfolding rep.simps [of len f mn mx gr k x] rep.simps [of len f mn mx gr ?k' x]
        using nz False by simp
    next
      case True
      have it: "f (\<lambda>y. if pos x < pos y \<and> pos y \<le> len
                      then rep len f 0 (dec_max mx) gr k y else None) x
          = f (\<lambda>y. if pos x < pos y \<and> pos y \<le> len
                      then rep len f 0 (dec_max mx) gr ?k' y else None) x"
      proof (rule good_cong [OF g v])
        fix y
        assume le: "pos x \<le> pos y" and vy: "valid len y"
        show "(if pos x < pos y \<and> pos y \<le> len then rep len f 0 (dec_max mx) gr k y else None)
            = (if pos x < pos y \<and> pos y \<le> len then rep len f 0 (dec_max mx) gr ?k' y else None)"
        proof (cases "pos x < pos y \<and> pos y \<le> len")
          case True
          then have "nat (len - pos y) + 0 < nat (len - pos x) + mn"
            by linarith
          from step [OF le vy this] True show ?thesis
            by simp
        next
          case False
          then show ?thesis
            by (simp only: if_False)
        qed
      qed
      show ?thesis
        unfolding rep.simps [of len f mn mx gr k x] rep.simps [of len f mn mx gr ?k' x]
        using nz True v by (simp add: it restrict_self cong: option.case_cong)
    qed
  qed
qed

lemma good_rmatch: "good len (rmatch len r)"
proof (induction r)
  case (Chr P)
  show ?case
    unfolding good_def
  proof (intro allI impI)
    fix k x
    assume v: "valid len x"
    show "rmatch len (Chr P) k x = rmatch len (Chr P) (restrict len x k) x"
      using v by (cases "rest x") (simp_all add: restrict_def valid_def)
  qed
next
  case (Lit ic w)
  show ?case
    unfolding good_def
  proof (intro allI impI)
    fix k x
    assume v: "valid len x"
    show "rmatch len (Lit ic w) k x = rmatch len (Lit ic w) (restrict len x k) x"
      using lit_match_restrict [OF v order_refl, of ic w k] by simp
  qed
next
  case (Seq a b)
  show ?case
    unfolding good_def
  proof (intro allI impI)
    fix k x
    assume v: "valid len x"
    have "rmatch len a (rmatch len b k) x = rmatch len a (rmatch len b (restrict len x k)) x"
    proof (rule good_cong [OF Seq.IH(1) v])
      fix y
      assume le: "pos x \<le> pos y" and vy: "valid len y"
      show "rmatch len b k y = rmatch len b (restrict len x k) y"
      proof (rule good_cong [OF Seq.IH(2) vy])
        fix z
        assume "pos y \<le> pos z" "valid len z"
        then show "k z = restrict len x k z"
          using le by (simp add: restrict_def)
      qed
    qed
    then show "rmatch len (Seq a b) k x = rmatch len (Seq a b) (restrict len x k) x"
      by simp
  qed
next
  case (Alt a b)
  show ?case
    unfolding good_def
  proof (intro allI impI)
    fix k x
    assume v: "valid len x"
    have ea: "rmatch len a k x = rmatch len a (restrict len x k) x"
      and eb: "rmatch len b k x = rmatch len b (restrict len x k) x"
      using Alt.IH v unfolding good_def by blast+
    show "rmatch len (Alt a b) k x = rmatch len (Alt a b) (restrict len x k) x"
      by (simp add: ea eb cong: option.case_cong)
  qed
next
  case (Rep mn mx g a)
  show ?case
    unfolding good_def
  proof (intro allI impI)
    fix k x
    assume v: "valid len x"
    show "rmatch len (Rep mn mx g a) k x = rmatch len (Rep mn mx g a) (restrict len x k) x"
      using good_rep [OF Rep.IH v, of mn mx g k] by simp
  qed
next
  case (Grp i a)
  show ?case
    unfolding good_def
  proof (intro allI impI)
    fix k x
    assume v: "valid len x"
    have "rmatch len a (\<lambda>y. k (MState (rest y) (prev y) (pos y)
              ((i, take (nat (pos y - pos x)) (rest x)) # caps y))) x
        = rmatch len a (\<lambda>y. restrict len x k (MState (rest y) (prev y) (pos y)
              ((i, take (nat (pos y - pos x)) (rest x)) # caps y))) x"
      by (rule good_cong [OF Grp.IH v]) (simp add: restrict_def valid_def)
    then show "rmatch len (Grp i a) k x = rmatch len (Grp i a) (restrict len x k) x"
      by simp
  qed
next
  case (Look a)
  show ?case
    unfolding good_def by (auto simp add: restrict_def valid_def split: option.splits)
next
  case (NLook a)
  show ?case
    unfolding good_def by (auto simp add: restrict_def split: option.splits)
next
  case Bos
  show ?case
    unfolding good_def by (simp add: restrict_def)
next
  case Eos
  show ?case
    unfolding good_def by (simp add: restrict_def)
next
  case WordB
  show ?case
    unfolding good_def by (simp add: restrict_def)
qed

lemma sourcedD: "sourced f \<Longrightarrow> f k x = Some z \<Longrightarrow> \<exists>y. k y = Some z"
  unfolding sourced_def by blast

lemma sourced_lit: "lit_match ic w k x = Some z \<Longrightarrow> \<exists>y. k y = Some z"
  by (induction w arbitrary: x) (auto split: list.splits if_splits)

lemma sourced_rep:
  assumes f: "sourced f"
  shows "rep len f mn mx gr k x = Some z \<Longrightarrow> \<exists>y. k y = Some z"
proof (induction "nat (len - pos x) + mn" arbitrary: x mn mx rule: less_induct)
  case less
  note eq = less.prems [unfolded rep.simps [of len f mn mx gr k x]]
  show ?case
  proof (cases "mx = Some 0")
    case True
    then show ?thesis
      using eq by auto
  next
    case nz: False
    have via: "\<exists>y. k y = Some z"
      if "f (\<lambda>y. if G y then rep len f n (dec_max mx) gr k y else None) x = Some z"
        and "\<And>y. G y \<Longrightarrow> nat (len - pos y) + n < nat (len - pos x) + mn"
      for G n
    proof -
      from sourcedD [OF f that(1)] obtain y
        where y: "(if G y then rep len f n (dec_max mx) gr k y else None) = Some z"
        by blast
      then have gy: "G y" and r: "rep len f n (dec_max mx) gr k y = Some z"
        by (auto split: if_splits)
      from less.hyps [OF that(2) [OF gy] r] show ?thesis .
    qed
    show ?thesis
    proof (cases "mn = 0")
      case False
      have "f (\<lambda>y. if pos x \<le> pos y then rep len f (mn - 1) (dec_max mx) gr k y else None) x
          = Some z"
        using eq nz False by simp
      then show ?thesis
      proof (rule via)
        fix y
        assume "pos x \<le> pos y"
        then show "nat (len - pos y) + (mn - 1) < nat (len - pos x) + mn"
          using False by linarith
      qed
    next
      case True
      have dec: "nat (len - pos y) + 0 < nat (len - pos x) + mn"
        if "pos x < pos y \<and> pos y \<le> len" for y
        using that by linarith
      consider "k x = Some z"
        | "f (\<lambda>y. if pos x < pos y \<and> pos y \<le> len
                  then rep len f 0 (dec_max mx) gr k y else None) x = Some z"
        using eq nz True by (auto split: if_splits option.splits)
      then show ?thesis
      proof cases
        case 1
        then show ?thesis
          by blast
      next
        case 2
        then show ?thesis
          by (rule via) (rule dec)
      qed
    qed
  qed
qed

lemma sourced_rmatch: "sourced (rmatch len r)"
proof (induction r)
  case (Chr P)
  show ?case
    unfolding sourced_def by (auto split: list.splits if_splits)
next
  case (Lit ic w)
  show ?case
    unfolding sourced_def using sourced_lit by auto
next
  case (Seq a b)
  show ?case
    unfolding sourced_def
  proof (intro allI impI)
    fix k x z
    assume "rmatch len (Seq a b) k x = Some z"
    then have "rmatch len a (rmatch len b k) x = Some z"
      by simp
    from sourcedD [OF Seq.IH(1) this] obtain y where "rmatch len b k y = Some z"
      by blast
    from sourcedD [OF Seq.IH(2) this] show "\<exists>y. k y = Some z" .
  qed
next
  case (Alt a b)
  show ?case
    unfolding sourced_def
  proof (intro allI impI)
    fix k x z
    assume "rmatch len (Alt a b) k x = Some z"
    then have "rmatch len a k x = Some z \<or> rmatch len b k x = Some z"
      by (auto split: option.splits)
    then show "\<exists>y. k y = Some z"
      using sourcedD [OF Alt.IH(1)] sourcedD [OF Alt.IH(2)] by blast
  qed
next
  case (Rep mn mx g a)
  show ?case
    unfolding sourced_def using sourced_rep [OF Rep.IH] by auto
next
  case (Grp i a)
  show ?case
    unfolding sourced_def
  proof (intro allI impI)
    fix k x z
    assume "rmatch len (Grp i a) k x = Some z"
    then have "rmatch len a (\<lambda>y. k (MState (rest y) (prev y) (pos y)
        ((i, take (nat (pos y - pos x)) (rest x)) # caps y))) x = Some z"
      by simp
    from sourcedD [OF Grp.IH this] show "\<exists>y. k y = Some z"
      by blast
  qed
next
  case (Look a)
  show ?case
    unfolding sourced_def by (auto split: option.splits)
next
  case (NLook a)
  show ?case
    unfolding sourced_def by (auto split: option.splits)
next
  case Bos
  show ?case
    unfolding sourced_def by (auto split: if_splits)
next
  case Eos
  show ?case
    unfolding sourced_def by (auto split: if_splits)
next
  case WordB
  show ?case
    unfolding sourced_def by (auto split: if_splits)
qed

lemma rmatch_end:
  assumes "valid len x" "rmatch len r Some x = Some y"
  shows "pos x \<le> pos y \<and> valid len y"
proof -
  have "rmatch len r (restrict len x Some) x = Some y"
    using good_rmatch [of len r] assms unfolding good_def by metis
  from sourcedD [OF sourced_rmatch this] show ?thesis
    by (auto simp add: restrict_def split: if_splits)
qed

lemma valid_le: "valid len y \<Longrightarrow> pos y \<le> len"
  by (simp add: valid_def)

text \<open>The equation of RepeatMatcher.\<close>

lemma rep_spec:
  assumes "good len f" "valid len x"
  shows "rep len f mn mx gr k x =
     (if mx = Some 0 then k x
      else if mn \<noteq> 0 then f (\<lambda>y. rep len f (mn - 1) (dec_max mx) gr k y) x
      else if gr then
        (case f (\<lambda>y. if pos y = pos x then None else rep len f 0 (dec_max mx) gr k y) x of
           Some z \<Rightarrow> Some z
         | None \<Rightarrow> k x)
      else
        (case k x of
           Some z \<Rightarrow> Some z
         | None \<Rightarrow> f (\<lambda>y. if pos y = pos x then None else rep len f 0 (dec_max mx) gr k y) x))"
proof -
  have a: "f (\<lambda>y. if pos x \<le> pos y then rep len f (mn - 1) (dec_max mx) gr k y else None) x
      = f (\<lambda>y. rep len f (mn - 1) (dec_max mx) gr k y) x"
    by (rule good_cong [OF assms]) simp
  have b: "f (\<lambda>y. if pos x < pos y \<and> pos y \<le> len then rep len f 0 (dec_max mx) gr k y else None) x
      = f (\<lambda>y. if pos y = pos x then None else rep len f 0 (dec_max mx) gr k y) x"
    by (rule good_cong [OF assms]) (auto dest: valid_le)
  show ?thesis
    unfolding rep.simps [of len f mn mx gr k x] a b by simp
qed

lemma search_bounds:
  "p + int (length s) = len \<Longrightarrow> search len r pv p s = Some res \<Longrightarrow>
   p \<le> m_index res \<and> m_index res \<le> m_end res
   \<and> m_end res + int (length (m_rest res)) = len"
proof (induction s arbitrary: pv p)
  case Nil
  then obtain y where y: "rmatch len r Some (MState [] pv p []) = Some y"
    and res: "res = MRes p (pos y) [] (caps y) (rest y) (prev y)"
    by (auto split: option.splits)
  have "valid len (MState [] pv p [])"
    using Nil.prems(1) by (simp add: valid_def)
  from rmatch_end [OF this y] show ?case
    by (simp add: res valid_def)
next
  case (Cons c cs)
  show ?case
  proof (cases "rmatch len r Some (MState (c # cs) pv p [])")
    case None
    then have "search len r (Some c) (p + 1) cs = Some res"
      using Cons.prems(2) by simp
    moreover have "p + 1 + int (length cs) = len"
      using Cons.prems(1) by simp
    ultimately have "p + 1 \<le> m_index res \<and> m_index res \<le> m_end res
        \<and> m_end res + int (length (m_rest res)) = len"
      by (rule Cons.IH [rotated])
    then show ?thesis
      by simp
  next
    case (Some y)
    then have res: "res = MRes p (pos y) (take (nat (pos y - p)) (c # cs)) (caps y) (rest y) (prev y)"
      using Cons.prems(2) by simp
    have "valid len (MState (c # cs) pv p [])"
      using Cons.prems(1) by (simp add: valid_def)
    from rmatch_end [OF this Some] show ?thesis
      by (simp add: res valid_def)
  qed
qed

text \<open>The loop of \<open>replace\<close>, without the position tests.\<close>

lemma replace_from_spec:
  assumes "p + int (length s) = len"
  shows "replace_from len r w pv p s = (case search len r pv p s of
       None \<Rightarrow> s
     | Some res \<Rightarrow>
         if m_index res < m_end res then
           take (nat (m_index res - p)) s @ w
             @ replace_from len r w (m_prev res) (m_end res) (m_rest res)
         else (case m_rest res of
                 [] \<Rightarrow> take (nat (m_index res - p)) s @ w
               | c # cs \<Rightarrow>
                   take (nat (m_index res - p)) s @ w
                     @ c # replace_from len r w (Some c) (m_end res + 1) cs))"
proof (cases "search len r pv p s")
  case None
  then show ?thesis
    by (subst replace_from.simps) simp
next
  case (Some res)
  from search_bounds [OF assms Some]
  have b: "p \<le> m_index res" "m_index res \<le> m_end res"
    "m_end res + int (length (m_rest res)) = len"
    by simp_all
  then have "m_end res \<le> len"
    by linarith
  moreover have "m_end res < len" if "m_rest res = c # cs" for c cs
    using b(3) that by simp
  ultimately show ?thesis
    using b Some by (subst replace_from.simps) (auto split: list.splits)
qed

lemma consuming_cong:
  assumes "consuming len f" "valid len x"
    and "\<And>y. pos x < pos y \<Longrightarrow> valid len y \<Longrightarrow> k y = k' y"
  shows "f k x = f k' x"
proof -
  have "strict len x k = strict len x k'"
    using assms(3) by (auto simp add: strict_def fun_eq_iff)
  then show ?thesis
    using assms(1,2) unfolding consuming_def by metis
qed

lemma consumingI:
  assumes "\<And>k x. valid len x \<Longrightarrow> f k x = f (strict len x k) x"
  shows "consuming len f"
  using assms unfolding consuming_def by blast

lemma consuming_Chr: "consuming len (rmatch len (Chr P))"
  by (rule consumingI) (auto simp add: strict_def valid_def split: list.splits)

lemma consuming_Seq1:
  assumes "consuming len (rmatch len a)"
  shows "consuming len (rmatch len (Seq a b))"
proof (rule consumingI)
  fix k x
  assume v: "valid len x"
  have "rmatch len a (rmatch len b k) x = rmatch len a (rmatch len b (strict len x k)) x"
  proof (rule consuming_cong [OF assms v])
    fix y
    assume lt: "pos x < pos y" and vy: "valid len y"
    show "rmatch len b k y = rmatch len b (strict len x k) y"
      by (rule good_cong [OF good_rmatch vy]) (use lt in \<open>simp add: strict_def\<close>)
  qed
  then show "rmatch len (Seq a b) k x = rmatch len (Seq a b) (strict len x k) x"
    by simp
qed

lemma consuming_Seq2:
  assumes "consuming len (rmatch len b)"
  shows "consuming len (rmatch len (Seq a b))"
proof (rule consumingI)
  fix k x
  assume v: "valid len x"
  have "rmatch len a (rmatch len b k) x = rmatch len a (rmatch len b (strict len x k)) x"
  proof (rule good_cong [OF good_rmatch v])
    fix y
    assume le: "pos x \<le> pos y" and vy: "valid len y"
    show "rmatch len b k y = rmatch len b (strict len x k) y"
      by (rule consuming_cong [OF assms vy]) (use le in \<open>simp add: strict_def\<close>)
  qed
  then show "rmatch len (Seq a b) k x = rmatch len (Seq a b) (strict len x k) x"
    by simp
qed

lemma consuming_Grp:
  assumes "consuming len (rmatch len a)"
  shows "consuming len (rmatch len (Grp i a))"
proof (rule consumingI)
  fix k x
  assume v: "valid len x"
  have "rmatch len a (\<lambda>y. k (MState (rest y) (prev y) (pos y)
            ((i, take (nat (pos y - pos x)) (rest x)) # caps y))) x
      = rmatch len a (\<lambda>y. strict len x k (MState (rest y) (prev y) (pos y)
            ((i, take (nat (pos y - pos x)) (rest x)) # caps y))) x"
    by (rule consuming_cong [OF assms v]) (simp add: strict_def valid_def)
  then show "rmatch len (Grp i a) k x = rmatch len (Grp i a) (strict len x k) x"
    by simp
qed

lemma consuming_Rep:
  assumes "consuming len (rmatch len a)" "mn \<noteq> 0" "mx \<noteq> Some 0"
  shows "consuming len (rmatch len (Rep mn mx gr a))"
proof (rule consumingI)
  fix k x
  assume v: "valid len x"
  let ?f = "rmatch len a"
  have "?f (\<lambda>y. rep len ?f (mn - 1) (dec_max mx) gr k y) x
      = ?f (\<lambda>y. rep len ?f (mn - 1) (dec_max mx) gr (strict len x k) y) x"
  proof (rule consuming_cong [OF assms(1) v])
    fix y
    assume lt: "pos x < pos y" and vy: "valid len y"
    have "rep len ?f (mn - 1) (dec_max mx) gr k y
        = rep len ?f (mn - 1) (dec_max mx) gr (restrict len y k) y"
      by (rule good_rep [OF good_rmatch vy])
    also have "restrict len y k = restrict len y (strict len x k)"
      using lt by (auto simp add: restrict_def strict_def fun_eq_iff)
    also have "rep len ?f (mn - 1) (dec_max mx) gr (restrict len y (strict len x k)) y
        = rep len ?f (mn - 1) (dec_max mx) gr (strict len x k) y"
      by (rule good_rep [OF good_rmatch vy, symmetric])
    finally show "rep len ?f (mn - 1) (dec_max mx) gr k y
        = rep len ?f (mn - 1) (dec_max mx) gr (strict len x k) y" .
  qed
  then show "rmatch len (Rep mn mx gr a) k x = rmatch len (Rep mn mx gr a) (strict len x k) x"
    using assms(2,3) by (simp add: rep_spec [OF good_rmatch v])
qed

lemma consuming_moneyPattern: "consuming len (rmatch len moneyPattern)"
  unfolding moneyPattern_def seqs.simps rtimes_def digit_def
  by (intro consuming_Seq2 consuming_Grp consuming_Seq1 consuming_Rep consuming_Chr) simp_all

lemma search_progress:
  assumes "consuming len (rmatch len r)"
  shows "p + int (length s) = len \<Longrightarrow> search len r pv p s = Some res \<Longrightarrow>
    m_index res < m_end res"
proof (induction s arbitrary: pv p)
  case Nil
  then obtain y where y: "rmatch len r Some (MState [] pv p []) = Some y"
    and res: "res = MRes p (pos y) [] (caps y) (rest y) (prev y)"
    by (auto split: option.splits)
  have v: "valid len (MState [] pv p [])"
    using Nil.prems(1) by (simp add: valid_def)
  have "rmatch len r (strict len (MState [] pv p []) Some) (MState [] pv p []) = Some y"
    using assms v y unfolding consuming_def by metis
  from sourcedD [OF sourced_rmatch this] show ?case
    by (auto simp add: res strict_def split: if_splits)
next
  case (Cons c cs)
  show ?case
  proof (cases "rmatch len r Some (MState (c # cs) pv p [])")
    case None
    then have "search len r (Some c) (p + 1) cs = Some res"
      using Cons.prems(2) by simp
    moreover have "p + 1 + int (length cs) = len"
      using Cons.prems(1) by simp
    ultimately show ?thesis
      by (rule Cons.IH [rotated])
  next
    case (Some y)
    then have res: "res = MRes p (pos y) (take (nat (pos y - p)) (c # cs)) (caps y) (rest y) (prev y)"
      using Cons.prems(2) by simp
    have v: "valid len (MState (c # cs) pv p [])"
      using Cons.prems(1) by (simp add: valid_def)
    have "rmatch len r (strict len (MState (c # cs) pv p []) Some) (MState (c # cs) pv p []) = Some y"
      using assms v Some unfolding consuming_def by metis
    from sourcedD [OF sourced_rmatch this] show ?thesis
      by (auto simp add: res strict_def split: if_splits)
  qed
qed

text \<open>
  The loop of \<open>exec\<close> over the money candidates, without the position tests: a match of
  \<open>moneyPattern\<close> is never empty.
\<close>

lemma exec_all_spec:
  assumes "p + int (length s) = len"
  shows "exec_all len moneyPattern pv p s = (case search len moneyPattern pv p s of
       None \<Rightarrow> []
     | Some res \<Rightarrow> res # exec_all len moneyPattern (m_prev res) (m_end res) (m_rest res))"
proof (cases "search len moneyPattern pv p s")
  case None
  then show ?thesis
    by (subst exec_all.simps) simp
next
  case (Some res)
  from search_bounds [OF assms Some] search_progress [OF consuming_moneyPattern assms Some]
  have "p < m_end res \<and> m_end res \<le> len \<and> m_index res < m_end res"
    by linarith
  then show ?thesis
    using Some by (subst exec_all.simps) simp
qed

section \<open>The reconciliation reads the numeric fields only\<close>

lemma numbers_date [simp]: "numbers_of (extract_date t d) = numbers_of d"
  by (simp add: numbers_of_def extract_date_def split: option.splits)

lemma numbers_vendor [simp]: "numbers_of (extract_vendor t d) = numbers_of d"
  by (simp add: numbers_of_def extract_vendor_def Let_def split: option.splits)

lemma numbers_invoice [simp]: "numbers_of (extract_invoice d) = numbers_of d"
  by (simp add: numbers_of_def extract_invoice_def split: option.splits)

lemma numbers_extract: "numbers_of (extract_fields raw) = numbers_of (extract_numbers raw)"
  by (simp add: extract_fields_def extract_numbers_def Let_def)

lemma numbers_step1: "numbers_of d = numbers_of d' \<Longrightarrow> numbers_of (step1 d) = numbers_of (step1 d')"
  by (simp add: numbers_of_def step1_def)

lemma numbers_step2: "numbers_of d = numbers_of d' \<Longrightarrow> numbers_of (step2 d) = numbers_of (step2 d')"
  by (simp add: numbers_of_def step2_def split: option.splits)

lemma numbers_step2_5: "numbers_of d = numbers_of d' \<Longrightarrow> numbers_of (step2_5 d) = numbers_of (step2_5 d')"
  by (auto simp add: numbers_of_def step2_5_def Let_def split: option.splits)

lemma numbers_step3: "numbers_of d = numbers_of d' \<Longrightarrow> numbers_of (step3 d) = numbers_of (step3 d')"
  by (simp add: numbers_of_def step3_def Let_def split: option.splits)

lemma numbers_step4: "numbers_of d = numbers_of d' \<Longrightarrow> numbers_of (step4 d) = numbers_of (step4 d')"
  by (simp add: numbers_of_def step4_def split: option.splits)

lemma numbers_step5: "numbers_of d = numbers_of d' \<Longrightarrow> numbers_of (step5 d) = numbers_of (step5 d')"
  by (simp add: numbers_of_def step5_def split: option.splits)

lemma numbers_step6: "numbers_of d = numbers_of d' \<Longrightarrow> numbers_of (step6 d) = numbers_of (step6 d')"
  by (simp add: numbers_of_def step6_def split: option.splits)

lemma numbers_step7: "numbers_of d = numbers_of d' \<Longrightarrow> numbers_of (step7 d) = numbers_of (step7 d')"
  by (simp add: numbers_of_def step7_def Let_def split: option.splits)

lemma numbers_step8: "numbers_of d = numbers_of d' \<Longrightarrow> numbers_of (step8 sa d) = numbers_of (step8 sa d')"
  by (simp add: numbers_of_def step8_def Let_def split: option.splits)

lemma numbers_reconcile:
  "numbers_of d = numbers_of d' \<Longrightarrow> numbers_of (reconcile sa d) = numbers_of (reconcile sa d')"
  unfolding reconcile_def steps1_7_def
  by (intro numbers_step8 numbers_step7 numbers_step6 numbers_step5 numbers_step4 numbers_step3
      numbers_step2_5 numbers_step2 numbers_step1)

lemma numbers_parse:
  "numbers_of (parse raw) = numbers_of (reconcile (sortedAmounts raw) (extract_numbers raw))"
  unfolding parse_def by (rule numbers_reconcile [OF numbers_extract])

section \<open>An overflowing total\<close>

lemma overflow_normalize: "normalize_text overflow_total = overflow_total"
  by code_simp

lemma overflow_section: "extractionText overflow_total = str '' 7% ''"
  by code_simp

lemma overflow_find_total: "find_total totalPatterns overflow_total = Some PInf"
  by code_simp

lemma overflow_section_fields:
  "find_subtotal subtotalPatterns (str '' 7% '') = None"
  "find_percent taxPercentPatterns (str '' 7% '') = Some (num_of_int 7)"
  "find_tax taxAmountPatterns (str '' 7% '') \<lparr>rawText = r, amount = None, subtotalAmount = None,
     taxAmount = None, taxPercentage = Some (num_of_int 7), invoiceNumber = None, date = None,
     vendorName = None\<rparr> = None"
  by code_simp+

lemma reconcile_overflow:
  "reconcile sa \<lparr>rawText = r, amount = Some PInf, subtotalAmount = None, taxAmount = None,
       taxPercentage = Some (num_of_int 7), invoiceNumber = i, date = dt, vendorName = v\<rparr>
   = \<lparr>rawText = r, amount = Some PInf, subtotalAmount = Some PInf, taxAmount = Some NaN,
       taxPercentage = Some (num_of_int 7), invoiceNumber = i, date = dt, vendorName = v\<rparr>"
  by code_simp

lemma seven_truthy: "truthy (num_of_int 7)"
  by code_simp

lemma extract_overflow:
  "extract_numbers overflow_total = (empty_data overflow_total)
     \<lparr>amount := Some PInf, taxPercentage := Some (num_of_int 7)\<rparr>"
  by (simp add: extract_numbers_def overflow_normalize overflow_section extract_subtotal_def
      extract_percent_def extract_tax_def extract_total_def overflow_section_fields
      overflow_find_total empty_data_def truthy_opt_def Let_def)

section \<open>Where the tax percentage comes from\<close>

lemma find_percent_range: "find_percent ps t = Some p \<Longrightarrow> rate_in_range p"
  by (induction ps) (auto simp: rate_in_range_def zero_def split: option.splits if_splits)

lemma rate_zero: "rate_in_range zero"
  unfolding rate_in_range_def by code_simp

lemma pct_subtotal [simp]: "taxPercentage (extract_subtotal t d) = taxPercentage d"
  by (simp add: extract_subtotal_def split: option.splits)

lemma pct_tax [simp]: "taxPercentage (extract_tax t d) = taxPercentage d"
  by (simp add: extract_tax_def split: option.splits)

lemma pct_total [simp]: "taxPercentage (extract_total sa d) = taxPercentage d"
  by (simp add: extract_total_def Let_def split: option.splits)

lemma pct_date [simp]: "taxPercentage (extract_date t d) = taxPercentage d"
  by (simp add: extract_date_def split: option.splits)

lemma pct_vendor [simp]: "taxPercentage (extract_vendor t d) = taxPercentage d"
  by (simp add: extract_vendor_def Let_def split: option.splits)

lemma pct_invoice [simp]: "taxPercentage (extract_invoice d) = taxPercentage d"
  by (simp add: extract_invoice_def split: option.splits)

lemma extract_read_rate: "read_rate (extract_fields raw)"
  by (auto simp: read_rate_def extract_fields_def extract_percent_def
      empty_data_def Let_def dest: find_percent_range split: option.splits)

lemma step1_rate: "read_rate d \<Longrightarrow> read_rate (step1 d)"
  by (simp add: read_rate_def step1_def rate_zero)

lemma step2_pct [simp]: "taxPercentage (step2 d) = taxPercentage d"
  by (simp add: step2_def split: option.splits)

lemma step2_5_pct [simp]: "taxPercentage (step2_5 d) = taxPercentage d"
  by (simp add: step2_5_def Let_def split: option.splits)

lemma step3_pct [simp]: "taxPercentage (step3 d) = taxPercentage d"
  by (simp add: step3_def Let_def split: option.splits)

lemma step4_pct [simp]: "taxPercentage (step4 d) = taxPercentage d"
  by (simp add: step4_def split: option.splits)

lemma steps1_4_rate: "read_rate d \<Longrightarrow> read_rate (step4 (step3 (step2_5 (step2 (step1 d)))))"
  using step1_rate [of d] by (simp add: read_rate_def)

lemma step5_rate: "read_rate d \<Longrightarrow> read_rate (step5 d) \<or> recomputed_rate (step5 d)"
  by (cases "taxAmount d"; cases "subtotalAmount d")
    (simp_all add: read_rate_def recomputed_rate_def step5_def)

lemma step6_rate:
  "read_rate d \<or> recomputed_rate d \<Longrightarrow> read_rate (step6 d) \<or> recomputed_rate (step6 d)"
  by (cases "taxAmount d"; cases "subtotalAmount d")
    (auto simp add: read_rate_def recomputed_rate_def step6_def)

lemma step7_rate:
  "read_rate d \<or> recomputed_rate d \<Longrightarrow> read_rate (step7 d) \<or> recomputed_rate (step7 d)"
  by (cases "taxAmount d"; cases "subtotalAmount d"; cases "amount d")
    (auto simp add: read_rate_def recomputed_rate_def step7_def Let_def)

lemma step8_rate:
  "read_rate d \<or> recomputed_rate d \<Longrightarrow> read_rate (step8 sa d) \<or> recomputed_rate (step8 sa d)"
  by (cases "taxAmount d"; cases "subtotalAmount d"; cases "amount d";
      cases "second_candidate sa (the (amount d))")
    (auto simp add: read_rate_def recomputed_rate_def step8_def Let_def truthy_opt_def)

lemma parse_rate: "read_rate (parse raw) \<or> recomputed_rate (parse raw)"
  unfolding parse_def reconcile_def steps1_7_def
  by (intro step8_rate step7_rate step6_rate step5_rate steps1_4_rate extract_read_rate)

section \<open>Patterns of one code unit, and the dot-thousands shape\<close>

lemma single_Chr: "single len (Chr P) P"
  by (simp add: single_def)

lemma single_Lit: "single len (Lit False [c]) (\<lambda>x. x = c)"
  by (auto simp add: single_def chr_eq_def split: list.splits)

lemma dropWhile_Cons_ex: "dropWhile Q cs = x # y \<Longrightarrow> \<exists>z\<in>set cs. \<not> Q z"
  by (metis dropWhile_eq_Nil_conv list.distinct(1))

lemma search_single:
  assumes "single len r P"
  shows "search len r pv p s = (case dropWhile (\<lambda>c. \<not> P c) s of
       [] \<Rightarrow> None
     | c # cs \<Rightarrow> Some (MRes (p + int (length (takeWhile (\<lambda>c. \<not> P c) s)))
                       (p + int (length (takeWhile (\<lambda>c. \<not> P c) s)) + 1) [c] [] cs (Some c)))"
proof (induction s arbitrary: pv p)
  case Nil
  then show ?case
    using assms by (simp add: single_def)
next
  case (Cons c cs)
  have step: "rmatch len r Some (MState (c # cs) pv p [])
      = (if P c then Some (MState cs (Some c) (p + 1) []) else None)"
    using assms by (simp add: single_def)
  show ?case
  proof (cases "P c")
    case True
    then show ?thesis
      by (simp add: step)
  next
    case False
    then show ?thesis
      by (auto simp add: step Cons.IH split: list.splits dest: dropWhile_Cons_ex)
  qed
qed

lemma concat_keep: "\<forall>c\<in>set s. \<not> P c \<Longrightarrow> concat (map (\<lambda>c. if P c then w else [c]) s) = s"
  by (induction s) auto

lemma replace_from_single:
  assumes "single len r P"
  shows "len = p + int (length s) \<Longrightarrow>
    replace_from len r w pv p s = concat (map (\<lambda>c. if P c then w else [c]) s)"
proof (induction "length s" arbitrary: s pv p rule: less_induct)
  case less
  let ?tw = "takeWhile (\<lambda>c. \<not> P c) s"
  let ?dw = "dropWhile (\<lambda>c. \<not> P c) s"
  show ?case
  proof (cases ?dw)
    case Nil
    then have all: "\<forall>c\<in>set s. \<not> P c"
      by (metis dropWhile_eq_Nil_conv)
    have se: "search len r pv p s = None"
      by (subst search_single [OF assms]) (simp only: Nil list.case)
    have "replace_from len r w pv p s = s"
      by (subst replace_from.simps) (simp only: se option.case)
    then show ?thesis
      by (simp only: concat_keep [OF all])
  next
    case (Cons c cs)
    have s: "s = ?tw @ c # cs"
      using Cons by (metis takeWhile_dropWhile_id)
    have pc: "P c"
      using Cons by (metis dropWhile_eq_Cons_conv)
    have len_s: "length s = length ?tw + 1 + length cs"
      by (subst s) simp
    have ih: "replace_from len r w (Some c) (p + int (length ?tw) + 1) cs
        = concat (map (\<lambda>c. if P c then w else [c]) cs)"
      using less.prems len_s by (intro less.hyps) simp_all
    have tw: "concat (map (\<lambda>c. if P c then w else [c]) ?tw) = ?tw"
      by (rule concat_keep) (metis (mono_tags, lifting) set_takeWhileD)
    have "concat (map (\<lambda>c. if P c then w else [c]) s)
        = concat (map (\<lambda>c. if P c then w else [c]) (?tw @ c # cs))"
      using s by simp
    then have rhs: "concat (map (\<lambda>c. if P c then w else [c]) s)
        = ?tw @ w @ concat (map (\<lambda>c. if P c then w else [c]) cs)"
      by (simp only: map_append concat_append tw list.map concat.simps pc if_True)
    have se: "search len r pv p s = Some (MRes (p + int (length ?tw)) (p + int (length ?tw) + 1)
        [c] [] cs (Some c))"
      by (subst search_single [OF assms]) (simp only: Cons list.case)
    have tk: "take (length ?tw) s = ?tw"
      by (subst s) simp
    have g: "p < p + int (length ?tw) + 1 \<and> p + int (length ?tw) + 1 \<le> len"
      using less.prems len_s by simp
    have lhs: "replace_from len r w pv p s
        = ?tw @ w @ replace_from len r w (Some c) (p + int (length ?tw) + 1) cs"
      by (subst replace_from.simps) (simp add: se tk g)
    show ?thesis
      by (simp only: lhs rhs ih)
  qed
qed

lemma replace_all_single:
  "single (int (length s)) r P \<Longrightarrow> replace_all r w s = concat (map (\<lambda>c. if P c then w else [c]) s)"
  unfolding replace_all_def by (rule replace_from_single) simp_all

lemma search_at_start:
  "rmatch len r Some (MState s pv p []) \<noteq> None \<Longrightarrow> search len r pv p s \<noteq> None"
  by (cases s) (auto split: option.splits)

lemma digits_exact:
  "list_all is_digit ds \<Longrightarrow> length ds = n \<Longrightarrow>
   rep len (rmatch len (Chr is_digit)) n (Some n) True k (MState (ds @ r) pv p cp)
     = k (MState r (if ds = [] then pv else Some (last ds)) (p + int n) cp)"
proof (induction ds arbitrary: n pv p)
  case Nil
  then show ?case
    by (subst rep.simps) simp
next
  case (Cons d ds)
  then obtain n' where n: "n = Suc n'" and n': "length ds = n'"
    by (cases n) auto
  have d: "is_digit d" and ds: "list_all is_digit ds"
    using Cons.prems by simp_all
  have ih: "rep len (rmatch len (Chr is_digit)) n' (Some n') True k (MState (ds @ r) (Some d) (p + 1) cp)
     = k (MState r (if ds = [] then Some d else Some (last ds)) (p + 1 + int n') cp)"
    by (rule Cons.IH [OF ds n'])
  show ?case
    unfolding n
    by (subst rep.simps) (simp add: d dec_max_def ih add.assoc)
qed

lemma digits_exact_some:
  assumes "list_all is_digit ds" "length ds = n"
    and "\<And>pv'. k (MState r pv' (p + int n) cp) \<noteq> None"
  shows "rep len (rmatch len (Chr is_digit)) n (Some n) True k (MState (ds @ r) pv p cp) \<noteq> None"
  by (simp add: digits_exact [OF assms(1,2)] assms(3))

lemma digits_1_3:
  assumes "list_all is_digit g" "1 \<le> length g" "length g \<le> 3" "\<not> is_digit c"
    and "p + int (length g) \<le> len"
    and "\<And>pv'. k (MState (c # r) pv' (p + int (length g)) cp) \<noteq> None"
  shows "rep len (rmatch len (Chr is_digit)) 1 (Some 3) True k (MState (g @ c # r) pv p cp) \<noteq> None"
proof -
  consider a where "g = [a]" | a b where "g = [a, b]" | a b d where "g = [a, b, d]"
    using assms(2,3) by (cases g rule: list.exhaust; simp; rename_tac a g1; case_tac g1; simp;
        rename_tac b g2; case_tac g2; simp; rename_tac d g3; case_tac g3; simp)
  then show ?thesis
  proof cases
    case 1
    have "\<exists>y. k (MState (c # r) (Some a) (1 + p) cp) = Some y"
      using assms(6) [of "Some a"] 1 by (simp add: add.commute)
    then show ?thesis
      using assms 1
      by (auto simp add: rep.simps [of _ _ "Suc 0"] rep.simps [of _ _ 0] dec_max_def
          add.commute split: option.splits)
  next
    case 2
    have "\<exists>y. k (MState (c # r) (Some b) (2 + p) cp) = Some y"
      using assms(6) [of "Some b"] 2 by (simp add: add.commute)
    then show ?thesis
      using assms 2
      by (auto simp add: rep.simps [of _ _ "Suc 0"] rep.simps [of _ _ 0] dec_max_def
          split: option.splits)
  next
    case 3
    have "\<exists>y. k (MState (c # r) (Some d) (3 + p) cp) = Some y"
      using assms(6) [of "Some d"] 3 by (simp add: add.commute)
    then show ?thesis
      using assms 3
      by (auto simp add: rep.simps [of _ _ "Suc 0"] rep.simps [of _ _ 0] dec_max_def
          split: option.splits)
  qed
qed

lemma dot_group_step:
  assumes "list_all is_digit g" "length g = 3"
  shows "rmatch len dot_group k (MState (46 # g @ r) pv p cp)
     = k (MState r (Some (last g)) (p + 4) cp)"
proof -
  have "g \<noteq> []"
    using assms(2) by auto
  then show ?thesis
    using digits_exact [OF assms, of len k r "Some 46" "p + 1" cp]
    by (simp add: dot_group_def chr_eq_def add.commute)
qed

lemma dot_groups:
  assumes "\<forall>g\<in>set gs. list_all is_digit g \<and> length g = 3" "c \<noteq> 46"
    and "mn \<le> length gs"
    and "p + 4 * int (length gs) \<le> len"
    and "\<And>pv'. k (MState (c # r) pv' (p + 4 * int (length gs)) cp) \<noteq> None"
  shows "rep len (rmatch len dot_group) mn None True k
     (MState (concat (map ((#) 46) gs) @ c # r) pv p cp) \<noteq> None"
  using assms
proof (induction gs arbitrary: mn pv p)
  case Nil
  then show ?case
    by (subst rep.simps) (simp add: dot_group_def chr_eq_def dec_max_def split: option.splits)
next
  case (Cons g gs)
  have g: "list_all is_digit g" "length g = 3"
    using Cons.prems(1) by simp_all
  have pos: "p + 4 + 4 * int (length gs) \<le> len"
    using Cons.prems(4) by simp
  have ih: "rep len (rmatch len dot_group) n None True k
      (MState (concat (map ((#) 46) gs) @ c # r) (Some (last g)) (p + 4) cp) \<noteq> None"
    if "n \<le> length gs" for n
  proof (rule Cons.IH [OF _ Cons.prems(2) that pos])
    show "\<forall>g\<in>set gs. list_all is_digit g \<and> length g = 3"
      using Cons.prems(1) by simp
    show "k (MState (c # r) pv' (p + 4 + 4 * int (length gs)) cp) \<noteq> None" for pv'
      using Cons.prems(5) [of pv'] by (simp add: algebra_simps)
  qed
  have bound: "p + 4 \<le> len"
    using pos by simp
  show ?case
  proof (cases mn)
    case 0
    then show ?thesis
      using ih [of 0] bound
      by (subst rep.simps) (auto simp add: dot_group_step [OF g] dec_max_def split: option.splits)
  next
    case (Suc n)
    then have "n \<le> length gs"
      using Cons.prems(3) by simp
    then show ?thesis
      using ih [of n] Suc
      by (subst rep.simps) (auto simp add: dot_group_step [OF g] dec_max_def split: option.splits)
  qed
qed

lemma dot_thousands_2_unfold:
  "dot_thousands_2 = Seq (Rep 1 (Some 3) True (Chr is_digit))
     (Seq (Rep 1 None True dot_group)
       (Seq (Lit False [44]) (Seq (Rep 2 (Some 2) True (Chr is_digit)) Eos)))"
  by (simp add: dot_thousands_2_def dot_group_def rtimes_def rplus_def lit_def str_def digit_def)

lemma decimals_end:
  assumes "is_digit a" "is_digit b"
  shows "rmatch len (Seq (Lit False [44]) (Seq (Rep 2 (Some 2) True (Chr is_digit)) Eos)) Some
     (MState [44, a, b] pv q cp) \<noteq> None"
  using digits_exact [of "[a, b]" 2 len "rmatch len Eos Some" "[]" "Some 44" "q + 1" cp] assms
  by (simp add: chr_eq_def)

lemma digit_not_space: "is_digit c \<Longrightarrow> \<not> is_space c"
  by (auto simp add: is_digit_def is_space_def)

lemma digit_values: "is_digit c \<Longrightarrow> c \<noteq> 44 \<and> c \<noteq> 46 \<and> c \<noteq> 45"
  by (auto simp add: is_digit_def)

lemma test_dot_thousands_2:
  assumes g0: "list_all is_digit g0" "1 \<le> length g0" "length g0 \<le> 3"
    and gs: "gs \<noteq> []" "\<forall>g\<in>set gs. list_all is_digit g \<and> length g = 3"
    and ab: "is_digit a" "is_digit b"
  shows "test dot_thousands_2 (g0 @ concat (map ((#) 46) gs) @ [44, a, b])"
proof -
  let ?tok = "g0 @ concat (map ((#) 46) gs) @ [44, a, b]"
  let ?len = "int (length ?tok)"
  obtain g1 gs' where gs_eq: "gs = g1 # gs'"
    using gs(1) by (cases gs) auto
  have len: "?len = int (length g0) + 4 * int (length gs) + 3"
    using gs(2) by (induction gs) (simp_all add: algebra_simps)
  let ?K2 = "rmatch ?len (Seq (Lit False [44]) (Seq (Rep 2 (Some 2) True (Chr is_digit)) Eos)) Some"
  let ?K1 = "rmatch ?len (Seq (Rep 1 None True dot_group)
       (Seq (Lit False [44]) (Seq (Rep 2 (Some 2) True (Chr is_digit)) Eos))) Some"
  have one: "1 \<le> length gs"
    using gs(1) by (cases gs) auto
  have bound: "0 + int (length g0) + 4 * int (length gs) \<le> ?len"
    using len by simp
  have step: "rep ?len (rmatch ?len dot_group) 1 None True ?K2
      (MState (concat (map ((#) 46) gs) @ 44 # [a, b]) pv' (0 + int (length g0)) []) \<noteq> None"
    for pv'
    by (rule dot_groups [OF gs(2) _ one bound]) (simp_all only: decimals_end [OF ab], simp)
  have k1: "?K1 (MState (concat (map ((#) 46) gs) @ 44 # [a, b]) pv' (0 + int (length g0)) []) \<noteq> None"
    for pv'
    using step [of pv'] by simp
  have "rep ?len (rmatch ?len (Chr is_digit)) 1 (Some 3) True ?K1
      (MState (g0 @ 46 # (g1 @ concat (map ((#) 46) gs') @ [44, a, b])) None 0 []) \<noteq> None"
  proof (rule digits_1_3 [OF g0])
    show "\<not> is_digit 46"
      by (simp add: is_digit_def)
    show "0 + int (length g0) \<le> ?len"
      using len by simp
    show "?K1 (MState (46 # g1 @ concat (map ((#) 46) gs') @ [44, a, b]) pv' (0 + int (length g0)) [])
        \<noteq> None" for pv'
      using k1 [of pv'] by (simp add: gs_eq)
  qed
  then have "rmatch ?len dot_thousands_2 Some (MState ?tok None 0 []) \<noteq> None"
    by (simp add: dot_thousands_2_unfold gs_eq)
  then show ?thesis
    unfolding test_def str_match_def by (rule search_at_start)
qed

lemma dropWhile_hd: "s \<noteq> [] \<Longrightarrow> \<not> P (hd s) \<Longrightarrow> dropWhile P s = s"
  by (cases s) simp_all

lemma trim_digits:
  assumes "s \<noteq> []" "is_digit (hd s)" "is_digit (last s)"
  shows "trim s = s"
proof -
  have a: "dropWhile is_space s = s"
    using assms(1,2) by (intro dropWhile_hd) (simp_all add: digit_not_space)
  have "rev s \<noteq> []" "hd (rev s) = last s"
    using assms(1) by (simp_all add: hd_rev)
  then have b: "dropWhile is_space (rev s) = rev s"
    using assms(3) by (intro dropWhile_hd) (simp_all add: digit_not_space)
  show ?thesis
    by (simp add: trim_def a b)
qed

lemma strip_currency:
  "\<forall>c\<in>set s. \<not> not_currency_chr c \<Longrightarrow> replace_all (Chr not_currency_chr) [] s = s"
  by (simp add: replace_all_single [OF single_Chr] concat_keep)

lemma drop_dots:
  "replace_all dots [] s = filter (\<lambda>c. c \<noteq> 46) s"
proof -
  have "replace_all (Lit False [46]) [] s = concat (map (\<lambda>c. if c = 46 then [] else [c]) s)"
    by (rule replace_all_single [OF single_Lit])
  also have "\<dots> = filter (\<lambda>c. c \<noteq> 46) s"
    by (induction s) auto
  finally show ?thesis
    by (simp add: dots_def lit_def str_def)
qed

lemma commas_to_dots:
  "replace_all commas (str ''.'') s = map (\<lambda>c. if c = 44 then 46 else c) s"
proof -
  have "replace_all (Lit False [44]) [46] s = concat (map (\<lambda>c. if c = 44 then [46] else [c]) s)"
    by (rule replace_all_single [OF single_Lit])
  also have "\<dots> = map (\<lambda>c. if c = 44 then 46 else c) s"
    by (induction s) auto
  finally show ?thesis
    by (simp add: commas_def lit_def str_def)
qed

lemma digits_currency: "list_all is_digit g \<Longrightarrow> \<forall>c\<in>set g. \<not> not_currency_chr c"
  by (auto simp add: list_all_iff not_currency_chr_def)

lemma digits_no_dot: "list_all is_digit g \<Longrightarrow> filter (\<lambda>c. c \<noteq> 46) g = g"
  by (induction g) (auto dest: digit_values)

lemma digits_no_comma: "list_all is_digit g \<Longrightarrow> map (\<lambda>c. if c = 44 then 46 else c) g = g"
  by (induction g) (auto dest: digit_values)

lemma groups_no_dot:
  "\<forall>g\<in>set gs. list_all is_digit g \<and> length g = 3 \<Longrightarrow>
   filter (\<lambda>c. c \<noteq> 46) (concat (map ((#) 46) gs)) = concat gs"
  by (induction gs) (simp_all add: digits_no_dot)

lemma groups_no_comma:
  "\<forall>g\<in>set gs. list_all is_digit g \<and> length g = 3 \<Longrightarrow>
   map (\<lambda>c. if c = 44 then 46 else c) (concat gs) = concat gs"
  by (induction gs) (simp_all add: digits_no_comma)

lemma groups_currency:
  "\<forall>g\<in>set gs. list_all is_digit g \<and> length g = 3 \<Longrightarrow>
   \<forall>c\<in>set (concat (map ((#) 46) gs)). \<not> not_currency_chr c"
  by (induction gs) (auto simp add: not_currency_chr_def list_all_iff)

text \<open>
  With exactly two digits after the comma the second shape test accepts the token: for one
  to three digits, one or more groups of a dot and three digits, a comma and two digits,
  parseCurrency drops the dots and reads the comma as the decimal point.
\<close>

lemma dot_thousands_two_decimals:
  assumes g0: "list_all is_digit g0" "1 \<le> length g0" "length g0 \<le> 3"
    and gs: "gs \<noteq> []" "\<forall>g\<in>set gs. list_all is_digit g \<and> length g = 3"
    and ab: "is_digit a" "is_digit b"
  shows "parseCurrency (g0 @ concat (map ((#) 46) gs) @ [44, a, b])
    = parseFloat (g0 @ concat gs @ [46, a, b])"
proof -
  let ?tok = "g0 @ concat (map ((#) 46) gs) @ [44, a, b]"
  have ne: "g0 \<noteq> []"
    using g0(2) by auto
  then have hd0: "is_digit (hd ?tok)"
    using g0(1) by (cases g0) simp_all
  have tr: "trim ?tok = ?tok"
    by (rule trim_digits) (use hd0 ab in simp_all)
  have cur: "\<forall>c\<in>set ?tok. \<not> not_currency_chr c"
    using digits_currency [OF g0(1)] groups_currency [OF gs(2)] ab
    by (auto simp add: not_currency_chr_def)
  have st: "replace_all (Chr not_currency_chr) [] ?tok = ?tok"
    by (rule strip_currency [OF cur])
  have dot: "46 \<in> set ?tok"
    using gs(1) by (cases gs) simp_all
  have comma: "44 \<in> set ?tok"
    by simp
  have shape: "test dot_thousands_2 ?tok"
    by (rule test_dot_thousands_2 [OF g0 gs ab])
  have nd: "filter (\<lambda>c. c \<noteq> 46) ?tok = g0 @ concat gs @ [44, a, b]"
    using ab by (auto simp add: digits_no_dot [OF g0(1)] groups_no_dot [OF gs(2)] dest: digit_values)
  have nc: "map (\<lambda>c. if c = 44 then 46 else c) (g0 @ concat gs @ [44, a, b])
      = g0 @ concat gs @ [46, a, b]"
    using ab by (auto simp add: digits_no_comma [OF g0(1)] groups_no_comma [OF gs(2)] dest: digit_values)
  have "?tok \<noteq> []"
    by simp
  then show ?thesis
    unfolding parseCurrency_def
    by (simp only: tr st Let_def dot comma shape drop_dots commas_to_dots nd nc simp_thms if_True
        if_False)
qed

lemma dot_thousands_two_decimals_example:
  "list_all is_digit (str ''1'') \<and> length (str ''1'') = 1
   \<and> list_all is_digit (str ''234'') \<and> length (str ''234'') = 3
   \<and> is_digit 53 \<and> is_digit 54
   \<and> parseCurrency (str ''1.234,56'') = parseFloat (str ''1234.56'')"
proof -
  have d: "list_all is_digit (str ''1'')" "length (str ''1'') = 1"
    "list_all is_digit (str ''234'')" "length (str ''234'') = 3" "is_digit 53" "is_digit 54"
    by (simp_all add: str_def is_digit_def)
  have "parseCurrency (str ''1'' @ concat (map ((#) 46) [str ''234'']) @ [44, 53, 54])
      = parseFloat (str ''1'' @ concat [str ''234''] @ [46, 53, 54])"
    by (rule dot_thousands_two_decimals) (use d in simp_all)
  then show ?thesis
    using d by (simp add: str_def)
qed

section \<open>The order of the money candidates\<close>

text \<open>
  The candidates are numbers other than NaN, and \<open>sortedAmounts\<close> holds them in descending
  order: no element is less than a later one. Its element of index 1 is the second-largest
  candidate.
\<close>

lemma shl_mult: "0 \<le> k \<Longrightarrow> shl m k = m * 2 ^ nat k"
  by (simp add: shl_def)

lemma lt_align:
  assumes "e \<le> e1" "e \<le> e2"
  shows "(shl m1 (e1 - min e1 e2) < shl m2 (e2 - min e1 e2))
    = (m1 * 2 ^ nat (e1 - e) < m2 * 2 ^ nat (e2 - e))"
proof -
  let ?e0 = "min e1 e2"
  let ?d = "nat (?e0 - e)"
  have a: "nat (e1 - e) = nat (e1 - ?e0) + ?d" and b: "nat (e2 - e) = nat (e2 - ?e0) + ?d"
    using assms by auto
  have p: "(0::int) < 2 ^ ?d"
    by simp
  have "(m1 * 2 ^ nat (e1 - e) < m2 * 2 ^ nat (e2 - e))
      = ((m1 * 2 ^ nat (e1 - ?e0)) * 2 ^ ?d < (m2 * 2 ^ nat (e2 - ?e0)) * 2 ^ ?d)"
    unfolding a b by (simp add: power_add mult.assoc)
  also have "\<dots> = (m1 * 2 ^ nat (e1 - ?e0) < m2 * 2 ^ nat (e2 - ?e0))"
    using p by (simp only: mult_less_cancel_right_pos)
  finally show ?thesis
    by (simp add: shl_mult)
qed

lemma fin_lt_neg_trans:
  assumes "num_lt (Fin m1 e1) (Fin m3 e3)"
  shows "num_lt (Fin m1 e1) (Fin m2 e2) \<or> num_lt (Fin m2 e2) (Fin m3 e3)"
proof -
  let ?e = "min e1 (min e2 e3)"
  have e: "?e \<le> e1" "?e \<le> e2" "?e \<le> e3"
    by auto
  have "m1 * 2 ^ nat (e1 - ?e) < m3 * 2 ^ nat (e3 - ?e)"
    using assms lt_align [OF e(1) e(3), of m1 m3] by (simp add: Let_def)
  then have "m1 * 2 ^ nat (e1 - ?e) < m2 * 2 ^ nat (e2 - ?e)
      \<or> m2 * 2 ^ nat (e2 - ?e) < m3 * 2 ^ nat (e3 - ?e)"
    by linarith
  then show ?thesis
    using lt_align [OF e(1) e(2), of m1 m2] lt_align [OF e(2) e(3), of m2 m3]
    by (simp add: Let_def)
qed

lemma fin_lt_asym: "num_lt (Fin m1 e1) (Fin m2 e2) \<Longrightarrow> \<not> num_lt (Fin m2 e2) (Fin m1 e1)"
  using lt_align [of "min e1 e2" e1 e2 m1 m2] lt_align [of "min e1 e2" e2 e1 m2 m1]
  by (simp add: Let_def min.commute)

lemma num_lt_neg_trans:
  "y \<noteq> NaN \<Longrightarrow> num_lt x z \<Longrightarrow> num_lt x y \<or> num_lt y z"
  by (cases x; cases y; cases z) (simp_all del: num_lt.simps(1) add: fin_lt_neg_trans)

lemma num_lt_asym: "num_lt x y \<Longrightarrow> \<not> num_lt y x"
  by (cases x; cases y) (simp_all del: num_lt.simps(1) add: fin_lt_asym)

lemma set_insert_desc [simp]: "set (insert_desc x xs) = insert x (set xs)"
  by (induction xs) auto

lemma length_insert_desc [simp]: "length (insert_desc x xs) = Suc (length xs)"
  by (induction xs) auto

lemma sorted_insert_desc:
  "NaN \<notin> set xs \<Longrightarrow> sorted_wrt (\<lambda>a b. \<not> num_lt a b) xs
   \<Longrightarrow> sorted_wrt (\<lambda>a b. \<not> num_lt a b) (insert_desc x xs)"
proof (induction xs)
  case Nil
  then show ?case by simp
next
  case (Cons y ys)
  show ?case
  proof (cases "num_lt x y")
    case True
    then show ?thesis
      using Cons by (auto dest: num_lt_asym)
  next
    case False
    have "\<not> num_lt x z" if "z \<in> set ys" for z
      using num_lt_neg_trans [of y x z] False Cons.prems that by auto
    then show ?thesis
      using False Cons.prems by auto
  qed
qed

lemma set_sort_desc [simp]: "set (sort_desc xs) = set xs"
  unfolding sort_desc_def by (induction xs) auto

lemma length_sort_desc [simp]: "length (sort_desc xs) = length xs"
  unfolding sort_desc_def by (induction xs) auto

lemma sorted_sort_desc:
  "NaN \<notin> set xs \<Longrightarrow> sorted_wrt (\<lambda>a b. \<not> num_lt a b) (sort_desc xs)"
proof (induction xs)
  case Nil
  then show ?case by (simp add: sort_desc_def)
next
  case (Cons x xs)
  then have "sorted_wrt (\<lambda>a b. \<not> num_lt a b) (insert_desc x (sort_desc xs))"
    by (intro sorted_insert_desc) simp_all
  then show ?case
    by (simp add: sort_desc_def)
qed

lemma moneyMatches_numbers: "NaN \<notin> set (moneyMatches raw)"
  by (auto simp add: moneyMatches_def money_value_def isNaN_def Let_def
      split: option.splits if_splits)

lemma sortedAmounts_candidates:
  "set (sortedAmounts raw) = set (moneyMatches raw)"
  "length (sortedAmounts raw) = length (moneyMatches raw)"
  by (simp_all add: sortedAmounts_def)

lemma sortedAmounts_descending: "sorted_wrt (\<lambda>a b. \<not> num_lt a b) (sortedAmounts raw)"
  unfolding sortedAmounts_def by (rule sorted_sort_desc [OF moneyMatches_numbers])

lemma sortedAmounts_second:
  assumes "1 < length (sortedAmounts raw)"
  shows "\<not> num_lt (sortedAmounts raw ! 0) (sortedAmounts raw ! 1)"
    and "1 < i \<Longrightarrow> i < length (sortedAmounts raw)
      \<Longrightarrow> \<not> num_lt (sortedAmounts raw ! 1) (sortedAmounts raw ! i)"
  using sortedAmounts_descending [of raw] assms by (simp_all add: sorted_wrt_iff_nth_less)

section \<open>The fallback of the subtotal\<close>

text \<open>The test of step 8 on the candidates, by their index in \<open>sortedAmounts\<close>.\<close>

lemma second_candidate_index:
  "second_candidate sa a
   = (if 1 < length sa \<and> num_lt (sa ! 1) a \<and> num_lt zero (sa ! 1) then Some (sa ! 1) else None)"
  by (simp add: second_candidate_def split: list.splits)

lemma step8_subtotal:
  "amount d = Some a \<Longrightarrow>
   subtotalAmount (step8 sa d)
   = (if truthy_opt (subtotalAmount d) then subtotalAmount d
      else if 1 < length sa \<and> num_lt (sa ! 1) a \<and> num_lt zero (sa ! 1) then Some (sa ! 1)
      else Some a)"
  by (simp add: step8_def second_candidate_index Let_def)

lemma step8_amount [simp]: "amount (step8 sa d) = amount d"
  by (simp add: step8_def Let_def split: option.splits)

section \<open>The consistency check compares the rounded sum\<close>

text \<open>
  Step 7 rounds the sum of subtotal and tax amount to two decimals before it compares it
  with the total. For \<open>Total: 110.00 / Subtotal: 100.004 / Tax: 10.10\<close> the rounded sum is
  110.10, the check accepts the record, and the sum itself is 0.104 away from the total.
\<close>

lemma rounded_sum_accepted:
  "subtotalAmount (parse rounding_slack) = Some (dec 100004 3)
   \<and> taxAmount (parse rounding_slack) = Some (dec 1010 2)
   \<and> amount (parse rounding_slack) = Some (dec 11000 2)
   \<and> sum2 (dec 100004 3) (dec 1010 2) = dec 11010 2
   \<and> \<not> num_lt (dec 10 2) (num_abs (num_sub (dec 11010 2) (dec 11000 2)))
   \<and> num_lt (dec 10 2)
        (num_abs (num_sub (num_add (dec 100004 3) (dec 1010 2)) (dec 11000 2)))"
proof -
  have "sum2 (dec 100004 3) (dec 1010 2) = dec 11010 2"
    and "\<not> num_lt (dec 10 2) (num_abs (num_sub (dec 11010 2) (dec 11000 2)))"
    and "num_lt (dec 10 2)
      (num_abs (num_sub (num_add (dec 100004 3) (dec 1010 2)) (dec 11000 2)))"
    and "dec 11000 2 = num_of_int 110"
    by code_simp+
  then show ?thesis
    by (simp add: parse_rounding_slack)
qed

section \<open>Claims\<close>

text \<open>
  C1. Scenario A: for the text \<open>Acme Corp / Subtotal: $100.00 / Tax 7% / Total: $107.00\<close> the
  specification expects the vendor Acme Corp, subtotal 100.00, tax percentage 7, tax amount
  7.00 and total 107.00. The code finds the word \<open>total\<close> inside \<open>Subtotal\<close>: the totals section
  starts after it, so that no subtotal is read, and the total pattern reads 100.00. The
  record returned has total 100, subtotal 93, tax amount 7 and tax percentage 7.53.
\<close>

theorem scenario_A_code_result:
  "vendorName (parse scenario_A) = Some (str ''Acme Corp'')
   \<and> subtotalAmount (parse scenario_A) = Some (num_of_int 93)
   \<and> taxPercentage (parse scenario_A) = Some (dec 753 2)
   \<and> taxAmount (parse scenario_A) = Some (num_of_int 7)
   \<and> amount (parse scenario_A) = Some (num_of_int 100)"
  by (simp add: parse_scenario_A)

text \<open>
  C2. Reconciliation closure: the specification expects that whenever subtotal, tax amount
  and total are all present in the record returned by parse, the sum of subtotal and tax
  amount is not more than 0.10 away from the total. For the text \<open>Total 5 / Tax 5\<close> the
  extraction reads total 5 and tax amount 5, step 2 derives the subtotal 0, and the
  consistency check of step 7 is skipped, the subtotal being 0; the record is 0, 5, 5 and
  closed. The fallback of step 8 then tests the subtotal with \<open>!data.subtotalAmount\<close>, which
  holds for 0 as for a missing field, and replaces it by the total: parse returns subtotal 5,
  tax amount 5 and total 5, and the sum is 5 away from the total. Nothing checks the record
  after step 8.
\<close>

theorem closure_fails_after_fallback:
  "subtotalAmount (steps1_7 (extract_fields tax_equals_total)) = Some zero
   \<and> taxAmount (steps1_7 (extract_fields tax_equals_total)) = Some (num_of_int 5)
   \<and> amount (steps1_7 (extract_fields tax_equals_total)) = Some (num_of_int 5)
   \<and> num_add zero (num_of_int 5) = num_of_int 5
   \<and> subtotalAmount (parse tax_equals_total) = Some (num_of_int 5)
   \<and> taxAmount (parse tax_equals_total) = Some (num_of_int 5)
   \<and> amount (parse tax_equals_total) = Some (num_of_int 5)
   \<and> num_sub (num_add (num_of_int 5) (num_of_int 5)) (num_of_int 5) = num_of_int 5
   \<and> \<not> num_le (num_abs (num_of_int 5)) (dec 10 2)"
proof -
  have "num_add zero (num_of_int 5) = num_of_int 5"
    and "num_sub (num_add (num_of_int 5) (num_of_int 5)) (num_of_int 5) = num_of_int 5"
    and "\<not> num_le (num_abs (num_of_int 5)) (dec 10 2)"
    by code_simp+
  then show ?thesis
    using steps_tax_equals_total by (simp add: parse_tax_equals_total numbers_of_def)
qed

text \<open>
  C3. For every input text parse returns a record (every function of the model is total),
  but a numeric field can be NaN: a total of 309 digits is read as infinity, the subtotal
  derived from it and a tax percentage of 7 is infinity again, and the tax amount, their
  difference, is NaN.
\<close>

theorem overflow_gives_nan:
  "taxAmount (parse overflow_total) = Some NaN"
proof -
  have "numbers_of (parse overflow_total)
      = numbers_of (reconcile (sortedAmounts overflow_total) (extract_numbers overflow_total))"
    by (rule numbers_parse)
  also have "\<dots> = (overflow_total, Some PInf, Some PInf, Some NaN, Some (num_of_int 7))"
    by (simp add: extract_overflow empty_data_def reconcile_overflow numbers_of_def)
  finally show ?thesis
    by (simp add: numbers_of_def)
qed

text \<open>
  C4. The bound of the tax percentage, as amended: for every input text, if the tax
  percentage is present in the record returned by parse, then it lies between 0 and 25 (a
  rate read from the text, or the 0 of the zero-tax detection), or tax amount and subtotal
  are present, the subtotal is positive, and the percentage is the tax amount divided by the
  subtotal, times 100, rounded to two decimals. The recomputed value is not clamped: it
  is -95 for \<open>Total: 5 / Subtotal: 100\<close> and 250 for \<open>ITBMS / 5 / 7%\<close>.
\<close>

theorem tax_percentage_origin:
  "taxPercentage (parse raw) = Some p \<longrightarrow>
     (num_le zero p \<and> num_le p (num_of_int 25))
     \<or> (\<exists>t s. taxAmount (parse raw) = Some t \<and> subtotalAmount (parse raw) = Some s
           \<and> num_lt zero s \<and> p = round2 (num_mul (num_div t s) hundred))"
  using parse_rate [of raw]
  by (cases "taxAmount (parse raw)"; cases "subtotalAmount (parse raw)")
    (auto simp: read_rate_def recomputed_rate_def rate_in_range_def percent_of_def)

theorem tax_percentage_origin_witness:
  "taxPercentage (parse total_below_subtotal) = Some (num_of_int (- 95))
   \<and> taxAmount (parse total_below_subtotal) = Some (num_of_int (- 95))
   \<and> subtotalAmount (parse total_below_subtotal) = Some (num_of_int 100)
   \<and> num_lt zero (num_of_int 100)
   \<and> num_of_int (- 95)
       = round2 (num_mul (num_div (num_of_int (- 95)) (num_of_int 100)) hundred)"
proof -
  have out: "\<not> num_le zero (num_of_int (- 95))"
    by code_simp
  from tax_percentage_origin [of total_below_subtotal "num_of_int (- 95)"] out
  show ?thesis
    by (auto simp add: parse_total_below_subtotal)
qed

theorem tax_percentage_out_of_range:
  "taxPercentage (parse total_below_subtotal) = Some (num_of_int (- 95))
   \<and> num_lt (num_of_int (- 95)) zero
   \<and> taxPercentage (parse tax_above_subtotal) = Some (num_of_int 250)
   \<and> num_lt hundred (num_of_int 250)"
proof -
  have "num_lt (num_of_int (- 95)) zero" and "num_lt hundred (num_of_int 250)"
    by code_simp+
  then show ?thesis
    by (simp add: parse_total_below_subtotal parse_tax_above_subtotal)
qed

text \<open>
  C5. Scenario B (zero tax): for the text \<open>ITBMS 0.00 / Total: $50.00\<close>, parse returns tax
  amount 0, tax percentage 0, subtotal 50.00 and total 50.00.
\<close>

theorem scenario_B_zero_tax:
  "taxAmount (parse scenario_B) = Some zero
   \<and> taxPercentage (parse scenario_B) = Some zero
   \<and> subtotalAmount (parse scenario_B) = Some (dec 5000 2)
   \<and> amount (parse scenario_B) = Some (dec 5000 2)"
proof -
  have "dec 5000 2 = num_of_int 50"
    by code_simp
  then show ?thesis
    by (simp add: parse_scenario_B)
qed

text \<open>
  C6. Scenario C: whenever the extraction gives subtotal 100.00, tax amount 5.00, total
  110.00 and no tax percentage, the reconciliation sets the tax amount to 10.00 and the
  tax percentage to 10.0 and leaves subtotal and total as they are.
\<close>

theorem scenario_C_discrepancy:
  assumes "subtotalAmount (extract_fields raw) = Some (dec 10000 2)"
    and "taxAmount (extract_fields raw) = Some (dec 500 2)"
    and "amount (extract_fields raw) = Some (dec 11000 2)"
    and "taxPercentage (extract_fields raw) = None"
  shows "taxAmount (parse raw) = Some (dec 1000 2)
    \<and> taxPercentage (parse raw) = Some (dec 100 1)
    \<and> subtotalAmount (parse raw) = Some (dec 10000 2)
    \<and> amount (parse raw) = Some (dec 11000 2)"
proof -
  have lits: "dec 10000 2 = num_of_int 100" "dec 500 2 = num_of_int 5"
    "dec 11000 2 = num_of_int 110" "dec 1000 2 = num_of_int 10" "dec 100 1 = num_of_int 10"
    by code_simp+
  obtain r i dt v where
    "extract_fields raw = \<lparr>rawText = r, amount = Some (num_of_int 110),
       subtotalAmount = Some (num_of_int 100), taxAmount = Some (num_of_int 5),
       taxPercentage = None, invoiceNumber = i, date = dt, vendorName = v\<rparr>"
    using assms unfolding lits by (cases "extract_fields raw") simp
  then show ?thesis
    unfolding lits parse_def by (simp add: reconcile_scenario_C)
qed

theorem scenario_C_discrepancy_witness:
  "subtotalAmount (extract_fields scenario_C) = Some (dec 10000 2)
   \<and> taxAmount (extract_fields scenario_C) = Some (dec 500 2)
   \<and> amount (extract_fields scenario_C) = Some (dec 11000 2)
   \<and> taxPercentage (extract_fields scenario_C) = None
   \<and> taxAmount (parse scenario_C) = Some (dec 1000 2)
   \<and> taxPercentage (parse scenario_C) = Some (dec 100 1)
   \<and> subtotalAmount (parse scenario_C) = Some (dec 10000 2)
   \<and> amount (parse scenario_C) = Some (dec 11000 2)"
proof -
  have lits: "dec 10000 2 = num_of_int 100" "dec 500 2 = num_of_int 5"
    "dec 11000 2 = num_of_int 110"
    by code_simp+
  have h: "subtotalAmount (extract_fields scenario_C) = Some (dec 10000 2)"
    "taxAmount (extract_fields scenario_C) = Some (dec 500 2)"
    "amount (extract_fields scenario_C) = Some (dec 11000 2)"
    "taxPercentage (extract_fields scenario_C) = None"
    by (simp_all add: extract_scenario_C lits)
  from scenario_C_discrepancy [OF h] h show ?thesis
    by simp
qed

text \<open>
  C7. parseCurrency reads \<open>1.234,56\<close> (European) and \<open>1,234.56\<close> (US) as 1234.56, and
  the empty text as not-a-number.
\<close>

theorem parseCurrency_round_trip:
  "parseCurrency (str ''1.234,56'') = dec 123456 2
   \<and> parseCurrency (str ''1,234.56'') = dec 123456 2
   \<and> parseCurrency [] = NaN"
  by code_simp

text \<open>
  C8. The dot-thousands, comma-decimal shape with one digit after the comma: the
  specification expects parseCurrency to drop the dots and read the comma as the decimal
  point, so that \<open>1.234,5\<close> is 1234.5. Both shape tests of the code, \<open>/\d+\.\d{3},\d{2}$/\<close> and
  \<open>/\d{1,3}(?:\.\d{3})+,\d{2}$/\<close>, ask for exactly two digits after the comma, while the test
  of the branch for a comma alone, \<open>/\d+,\d{1,2}$/\<close>, takes one or two. For \<open>1.234,5\<close> both
  tests fail, the comma is dropped as a thousands separator, and the value is 1.2345, a
  thousandth of the value read for \<open>1234,5\<close> and for \<open>1.234,50\<close>.
\<close>

theorem one_decimal_digit_not_decimal:
  "parseCurrency (str ''1.234,5'') = dec 12345 4
   \<and> parseCurrency (str ''1.234,5'') \<noteq> dec 12345 1
   \<and> parseCurrency (str ''1234,5'') = dec 12345 1
   \<and> parseCurrency (str ''1.234,50'') = dec 12345 1"
  by code_simp

text \<open>
  C9. The two-number form of the tax amount: for the text \<open>Desglose / 7.00 total 107.00\<close>
  the specification expects the extracted tax amount 7.00. The only pattern with two
  captures is written with doubled backslashes and matches no such line: the extraction
  leaves the tax amount absent, and the fallback of the reconciliation then takes 7 as
  the subtotal and 100 as the tax amount.
\<close>

theorem two_number_tax_not_extracted:
  "taxAmount (extract_fields two_number_line) = None
   \<and> subtotalAmount (parse two_number_line) = Some (num_of_int 7)
   \<and> taxAmount (parse two_number_line) = Some (num_of_int 100)"
  by (simp add: extract_two_number_line parse_two_number_line)

text \<open>
  C10. For every input text, if the record returned by parse has a total, it has a
  subtotal. A subtotal known before the last step (present, not zero, not NaN) is kept;
  otherwise the fallback of the last step assigns one: the second-largest money candidate
  (the element of index 1 of \<open>sortedAmounts\<close>, which holds the candidates in descending
  order), when there are two candidates or more and that one is positive and below the
  total, and the total itself otherwise.
\<close>

theorem amount_implies_subtotal:
  "amount (parse raw) = Some a \<longrightarrow>
     subtotalAmount (parse raw) \<noteq> None
     \<and> subtotalAmount (parse raw)
       = (if truthy_opt (subtotalAmount (steps1_7 (extract_fields raw)))
          then subtotalAmount (steps1_7 (extract_fields raw))
          else if 1 < length (sortedAmounts raw) \<and> num_lt (sortedAmounts raw ! 1) a
                  \<and> num_lt zero (sortedAmounts raw ! 1)
               then Some (sortedAmounts raw ! 1)
               else Some a)"
proof
  assume "amount (parse raw) = Some a"
  then have a: "amount (steps1_7 (extract_fields raw)) = Some a"
    by (simp add: parse_def reconcile_def)
  have eq: "subtotalAmount (parse raw)
      = (if truthy_opt (subtotalAmount (steps1_7 (extract_fields raw)))
         then subtotalAmount (steps1_7 (extract_fields raw))
         else if 1 < length (sortedAmounts raw) \<and> num_lt (sortedAmounts raw ! 1) a
                 \<and> num_lt zero (sortedAmounts raw ! 1)
              then Some (sortedAmounts raw ! 1)
              else Some a)"
    unfolding parse_def reconcile_def by (rule step8_subtotal [OF a])
  moreover have "subtotalAmount (parse raw) \<noteq> None"
    unfolding eq by (auto simp add: truthy_opt_def split: option.splits)
  ultimately show "subtotalAmount (parse raw) \<noteq> None
     \<and> subtotalAmount (parse raw)
       = (if truthy_opt (subtotalAmount (steps1_7 (extract_fields raw)))
          then subtotalAmount (steps1_7 (extract_fields raw))
          else if 1 < length (sortedAmounts raw) \<and> num_lt (sortedAmounts raw ! 1) a
                  \<and> num_lt zero (sortedAmounts raw ! 1)
               then Some (sortedAmounts raw ! 1)
               else Some a)"
    by simp
qed

theorem amount_implies_subtotal_witness:
  "amount (parse scenario_D) = Some (num_of_int 88)
   \<and> sortedAmounts scenario_D = [num_of_int 88]
   \<and> subtotalAmount (parse scenario_D) = Some (num_of_int 88)
   \<and> amount (parse two_number_line) = Some (num_of_int 107)
   \<and> sortedAmounts two_number_line = [num_of_int 107, num_of_int 7]
   \<and> subtotalAmount (parse two_number_line) = Some (num_of_int 7)"
proof -
  have c: "num_lt (num_of_int 7) (num_of_int 107)" "num_lt zero (num_of_int 7)"
    by code_simp+
  have d: "amount (parse scenario_D) = Some (num_of_int 88)"
    by (simp add: parse_scenario_D)
  have t: "amount (parse two_number_line) = Some (num_of_int 107)"
    by (simp add: parse_two_number_line)
  from amount_implies_subtotal [of scenario_D "num_of_int 88"] d
  have "subtotalAmount (parse scenario_D) = Some (num_of_int 88)"
    by (simp add: steps_scenario_D sortedAmounts_scenario_D truthy_opt_def)
  moreover from amount_implies_subtotal [of two_number_line "num_of_int 107"] t
  have "subtotalAmount (parse two_number_line) = Some (num_of_int 7)"
    by (simp add: steps_two_number_line sortedAmounts_two_number_line truthy_opt_def c)
  ultimately show ?thesis
    using d t by (simp add: sortedAmounts_scenario_D sortedAmounts_two_number_line)
qed

end
